theory Spec2Isabelle
  imports Main "HOL-Library.Word"
begin

text \<open>
  A model of the transcription service of glass-whis-gaia (the class \<open>SttService\<close>, and the
  session object of the gaia provider as far as the service uses it): the WAV encoder, the
  debouncing of transcripts per speaker, the batching of audio for the batch provider, the
  chunking of captured system audio, and closing. Methods are functions on an explicit state
  that also holds what the runtime keeps for the service, its clock and its queued timers;
  what the service does to the outside is appended to a trace; a call that raises returns
  the error as a value. An asynchronous method that touches the state on both sides of an
  \<open>await\<close> is modelled part by part, so that other callbacks can run while it is suspended.
\<close>

section \<open>Byte buffers\<close>

text \<open>
  A Node.js \<open>Buffer\<close> is a list of bytes. \<open>Buffer.alloc\<close> zero-fills; \<open>buffer.write\<close> and
  \<open>source.copy\<close> overwrite a range of the target and never grow it (\<open>blit\<close>);
  \<open>writeUInt16LE\<close> and \<open>writeUInt32LE\<close> raise a RangeError when the value does not fit the
  field or the field does not fit the buffer. A non-integral value is stored truncated, which is
  \<open>div\<close> on \<open>nat\<close> for the two quotients of \<open>pcmToWav\<close>. How large a buffer the runtime
  can allocate (\<open>buffer.constants.MAX_LENGTH\<close>, memory) is outside the model.
\<close>

type_synonym byte = "8 word"
type_synonym buffer = "byte list"

datatype js_error = RangeError | TypeError | Error string

definition ascii :: "string \<Rightarrow> buffer" where
  "ascii s = map (\<lambda>c. of_nat (of_char c)) s"

definition blit :: "buffer \<Rightarrow> nat \<Rightarrow> buffer \<Rightarrow> buffer" where
  "blit src off buf = take off buf @ take (length buf - off) src @ drop (off + length src) buf"

definition le16 :: "nat \<Rightarrow> buffer" where
  "le16 v = [of_nat v, of_nat (v div 256)]"

definition le32 :: "nat \<Rightarrow> buffer" where
  "le32 v = [of_nat v, of_nat (v div 256), of_nat (v div 65536), of_nat (v div 16777216)]"

definition writeUInt32LE :: "nat \<Rightarrow> nat \<Rightarrow> buffer \<Rightarrow> js_error + buffer" where
  "writeUInt32LE v off buf =
     (if 4294967295 < v \<or> length buf < off + 4 then Inl RangeError
      else Inr (blit (le32 v) off buf))"

definition writeUInt16LE :: "nat \<Rightarrow> nat \<Rightarrow> buffer \<Rightarrow> js_error + buffer" where
  "writeUInt16LE v off buf =
     (if 65535 < v \<or> length buf < off + 2 then Inl RangeError
      else Inr (blit (le16 v) off buf))"

definition Buffer_alloc :: "nat \<Rightarrow> buffer" where
  "Buffer_alloc n = replicate n 0"

definition buf_write :: "string \<Rightarrow> nat \<Rightarrow> buffer \<Rightarrow> js_error + buffer" where
  "buf_write s off buf = Inr (blit (ascii s) off buf)"

definition buf_copy :: "buffer \<Rightarrow> nat \<Rightarrow> buffer \<Rightarrow> js_error + buffer" where
  "buf_copy src off target = Inr (blit src off target)"

fun in_order :: "(buffer \<Rightarrow> js_error + buffer) list \<Rightarrow> buffer \<Rightarrow> js_error + buffer" where
  "in_order [] buf = Inr buf"
| "in_order (w # ws) buf = (case w buf of Inl e \<Rightarrow> Inl e | Inr buf' \<Rightarrow> in_order ws buf')"

section \<open>WavEncoder: \<open>pcmToWav\<close>\<close>

text \<open>
  The \<open>options\<close> object: an absent field is \<open>None\<close>, and \<open>options.x || d\<close> takes the
  default \<open>d\<close> for an absent or zero field (\<open>or_default\<close>). The writes run in the source's
  order and stop at the first one that raises (\<open>in_order\<close>).
\<close>

record wav_options =
  opt_numChannels :: "nat option"
  opt_sampleRate :: "nat option"
  opt_bitDepth :: "nat option"

definition or_default :: "nat option \<Rightarrow> nat \<Rightarrow> nat" where
  "or_default v d = (case v of None \<Rightarrow> d | Some n \<Rightarrow> if n = 0 then d else n)"

definition pcmToWav :: "buffer \<Rightarrow> wav_options \<Rightarrow> js_error + buffer" where
  "pcmToWav pcmBuffer options =
    (let numChannels = or_default (opt_numChannels options) 1;
         sampleRate = or_default (opt_sampleRate options) 24000;
         bitDepth = or_default (opt_bitDepth options) 16;
         byteRate = sampleRate * numChannels * bitDepth div 8;
         blockAlign = numChannels * bitDepth div 8;
         wavHeaderSize = 44;
         dataSize = length pcmBuffer
     in in_order
         [buf_write ''RIFF'' 0,
          writeUInt32LE (36 + dataSize) 4,
          buf_write ''WAVE'' 8,
          buf_write ''fmt '' 12,
          writeUInt32LE 16 16,
          writeUInt16LE 1 20,
          writeUInt16LE numChannels 22,
          writeUInt32LE sampleRate 24,
          writeUInt32LE byteRate 28,
          writeUInt16LE blockAlign 32,
          writeUInt16LE bitDepth 34,
          buf_write ''data'' 36,
          writeUInt32LE dataSize 40,
          buf_copy pcmBuffer 44]
         (Buffer_alloc (wavHeaderSize + dataSize)))"

text \<open>The options both batch paths pass: \<open>{ numChannels: 1, sampleRate: 24000, bitDepth: 16 }\<close>.\<close>

definition mono16 :: wav_options where
  "mono16 = \<lparr>opt_numChannels = Some 1, opt_sampleRate = Some 24000, opt_bitDepth = Some 16\<rparr>"

text \<open>
  The canonical 44-byte header for \<open>n\<close> data bytes at (mono, 16-bit, 24000 Hz), and the
  reading of a little-endian field (\<open>read_le\<close>) and of a byte range (\<open>slice i j\<close> is
  \<open>buf.slice(i, j)\<close>) used to state what the header holds.
\<close>

definition wav_header :: "nat \<Rightarrow> buffer" where
  "wav_header n = ascii ''RIFF'' @ le32 (36 + n) @ ascii ''WAVE'' @ ascii ''fmt '' @ le32 16 @ le16 1
      @ le16 1 @ le32 24000 @ le32 48000 @ le16 2 @ le16 16 @ ascii ''data'' @ le32 n"

definition read_le :: "buffer \<Rightarrow> nat" where
  "read_le bs = foldr (\<lambda>b acc. unat b + 256 * acc) bs 0"

definition slice :: "nat \<Rightarrow> nat \<Rightarrow> 'a list \<Rightarrow> 'a list" where
  "slice i j xs = take (j - i) (drop i xs)"

lemma length_le32 [simp]: "length (le32 v) = 4" by (simp add: le32_def)
lemma length_le16 [simp]: "length (le16 v) = 2" by (simp add: le16_def)
lemma length_ascii [simp]: "length (ascii s) = length s" by (simp add: ascii_def)

lemma length_blit [simp]: "length (blit src off buf) = length buf"
  by (simp add: blit_def)

lemma blit_zeros:
  "length a = off \<Longrightarrow> n = length src + m \<Longrightarrow>
   blit src off (a @ replicate n 0) = (a @ src) @ replicate m 0"
  by (simp add: blit_def replicate_add [symmetric] del: replicate_add)

lemma blit_end:
  "length a = off \<Longrightarrow> n = length src \<Longrightarrow> blit src off (a @ replicate n 0) = a @ src"
  by (simp add: blit_def)

lemma writeUInt32LE_zeros:
  "v \<le> 4294967295 \<Longrightarrow> length a = off \<Longrightarrow> n = m + 4 \<Longrightarrow>
   writeUInt32LE v off (a @ replicate n 0) = Inr ((a @ le32 v) @ replicate m 0)"
  using blit_zeros [where a = a and off = off and src = "le32 v" and n = n and m = m] by (simp add: writeUInt32LE_def)

lemma writeUInt16LE_zeros:
  "v \<le> 65535 \<Longrightarrow> length a = off \<Longrightarrow> n = m + 2 \<Longrightarrow>
   writeUInt16LE v off (a @ replicate n 0) = Inr ((a @ le16 v) @ replicate m 0)"
  using blit_zeros [where a = a and off = off and src = "le16 v" and n = n and m = m] by (simp add: writeUInt16LE_def)

lemma buf_write_zeros:
  "length a = off \<Longrightarrow> n = m + length s \<Longrightarrow>
   buf_write s off (a @ replicate n 0) = Inr ((a @ ascii s) @ replicate m 0)"
  using blit_zeros [where a = a and off = off and src = "ascii s" and n = n and m = m] by (simp add: buf_write_def)

lemma buf_copy_zeros:
  "length a = off \<Longrightarrow> n = length src \<Longrightarrow> buf_copy src off (a @ replicate n 0) = Inr (a @ src)"
  by (simp add: buf_copy_def blit_end)

lemma in_order_step:
  "w buf = Inr buf' \<Longrightarrow> in_order ws buf' = r \<Longrightarrow> in_order (w # ws) buf = r"
  by simp

lemma pcmToWav_mono16:
  assumes "36 + length pcm \<le> 4294967295"
  shows "pcmToWav pcm mono16 = Inr (wav_header (length pcm) @ pcm)"
proof -
  let ?n = "length pcm"
  let ?b1 = "[] @ ascii ''RIFF''"
  let ?b2 = "?b1 @ le32 (36 + ?n)"
  let ?b3 = "?b2 @ ascii ''WAVE''"
  let ?b4 = "?b3 @ ascii ''fmt ''"
  let ?b5 = "?b4 @ le32 16"
  let ?b6 = "?b5 @ le16 1"
  let ?b7 = "?b6 @ le16 1"
  let ?b8 = "?b7 @ le32 24000"
  let ?b9 = "?b8 @ le32 48000"
  let ?b10 = "?b9 @ le16 2"
  let ?b11 = "?b10 @ le16 16"
  let ?b12 = "?b11 @ ascii ''data''"
  let ?b13 = "?b12 @ le32 ?n"
  have s1: "buf_write ''RIFF'' 0 ([] @ replicate (44 + ?n) 0) = Inr (?b1 @ replicate (40 + ?n) 0)"
    by (rule buf_write_zeros) simp_all
  have s2: "writeUInt32LE (36 + ?n) 4 (?b1 @ replicate (40 + ?n) 0) = Inr (?b2 @ replicate (36 + ?n) 0)"
    using assms by (intro writeUInt32LE_zeros) simp_all
  have s3: "buf_write ''WAVE'' 8 (?b2 @ replicate (36 + ?n) 0) = Inr (?b3 @ replicate (32 + ?n) 0)"
    by (rule buf_write_zeros) simp_all
  have s4: "buf_write ''fmt '' 12 (?b3 @ replicate (32 + ?n) 0) = Inr (?b4 @ replicate (28 + ?n) 0)"
    by (rule buf_write_zeros) simp_all
  have s5: "writeUInt32LE 16 16 (?b4 @ replicate (28 + ?n) 0) = Inr (?b5 @ replicate (24 + ?n) 0)"
    by (rule writeUInt32LE_zeros) simp_all
  have s6: "writeUInt16LE 1 20 (?b5 @ replicate (24 + ?n) 0) = Inr (?b6 @ replicate (22 + ?n) 0)"
    by (rule writeUInt16LE_zeros) simp_all
  have s7: "writeUInt16LE 1 22 (?b6 @ replicate (22 + ?n) 0) = Inr (?b7 @ replicate (20 + ?n) 0)"
    by (rule writeUInt16LE_zeros) simp_all
  have s8: "writeUInt32LE 24000 24 (?b7 @ replicate (20 + ?n) 0) = Inr (?b8 @ replicate (16 + ?n) 0)"
    by (rule writeUInt32LE_zeros) simp_all
  have s9: "writeUInt32LE 48000 28 (?b8 @ replicate (16 + ?n) 0) = Inr (?b9 @ replicate (12 + ?n) 0)"
    by (rule writeUInt32LE_zeros) simp_all
  have s10: "writeUInt16LE 2 32 (?b9 @ replicate (12 + ?n) 0) = Inr (?b10 @ replicate (10 + ?n) 0)"
    by (rule writeUInt16LE_zeros) simp_all
  have s11: "writeUInt16LE 16 34 (?b10 @ replicate (10 + ?n) 0) = Inr (?b11 @ replicate (8 + ?n) 0)"
    by (rule writeUInt16LE_zeros) simp_all
  have s12: "buf_write ''data'' 36 (?b11 @ replicate (8 + ?n) 0) = Inr (?b12 @ replicate (4 + ?n) 0)"
    by (rule buf_write_zeros) simp_all
  have s13: "writeUInt32LE ?n 40 (?b12 @ replicate (4 + ?n) 0) = Inr (?b13 @ replicate ?n 0)"
    using assms by (intro writeUInt32LE_zeros) simp_all
  have s14: "buf_copy pcm 44 (?b13 @ replicate ?n 0) = Inr (?b13 @ pcm)"
    by (rule buf_copy_zeros) simp_all
  have run: "in_order
         [buf_write ''RIFF'' 0, writeUInt32LE (36 + ?n) 4, buf_write ''WAVE'' 8,
          buf_write ''fmt '' 12, writeUInt32LE 16 16, writeUInt16LE 1 20, writeUInt16LE 1 22,
          writeUInt32LE 24000 24, writeUInt32LE 48000 28, writeUInt16LE 2 32,
          writeUInt16LE 16 34, buf_write ''data'' 36, writeUInt32LE ?n 40, buf_copy pcm 44]
         ([] @ replicate (44 + ?n) 0) = Inr (?b13 @ pcm)"
    apply (rule in_order_step, rule s1)
    apply (rule in_order_step, rule s2)
    apply (rule in_order_step, rule s3)
    apply (rule in_order_step, rule s4)
    apply (rule in_order_step, rule s5)
    apply (rule in_order_step, rule s6)
    apply (rule in_order_step, rule s7)
    apply (rule in_order_step, rule s8)
    apply (rule in_order_step, rule s9)
    apply (rule in_order_step, rule s10)
    apply (rule in_order_step, rule s11)
    apply (rule in_order_step, rule s12)
    apply (rule in_order_step, rule s13)
    apply (rule in_order_step, rule s14)
    apply (rule in_order.simps(1))
    done
  have "?b13 @ pcm = wav_header ?n @ pcm"
    by (simp add: wav_header_def)
  with run show ?thesis
    by (simp add: pcmToWav_def mono16_def or_default_def Let_def Buffer_alloc_def
        del: in_order.simps)
qed


lemma read_le_le32:
  assumes "v \<le> 4294967295"
  shows "read_le (le32 v) = v"
proof -
  have b: "v div 65536 = v div 256 div 256" "v div 16777216 = v div 256 div 256 div 256"
    by (simp_all add: div_mult2_eq [symmetric])
  have c: "v div 256 div 256 div 256 mod 256 = v div 256 div 256 div 256"
    using assms by (simp add: div_mult2_eq [symmetric])
  have "read_le (le32 v) = v mod 256 + 256 * (v div 256 mod 256 + 256 * (v div 256 div 256 mod 256
      + 256 * (v div 256 div 256 div 256 mod 256)))"
    by (simp add: read_le_def le32_def unat_of_nat b)
  also have "\<dots> = v"
    unfolding c by (simp only: mod_mult_div_eq)
  finally show ?thesis .
qed

lemma read_le_le16: "v \<le> 65535 \<Longrightarrow> read_le (le16 v) = v"
  by (simp add: read_le_def le16_def unat_of_nat)

lemma length_wav_header [simp]: "length (wav_header n) = 44"
  by (simp add: wav_header_def)

lemma slice_wav_header:
  "slice 0 4 (wav_header n @ pcm) = ascii ''RIFF''"
  "slice 4 8 (wav_header n @ pcm) = le32 (36 + n)"
  "slice 8 12 (wav_header n @ pcm) = ascii ''WAVE''"
  "slice 12 16 (wav_header n @ pcm) = ascii ''fmt ''"
  "slice 16 20 (wav_header n @ pcm) = le32 16"
  "slice 20 22 (wav_header n @ pcm) = le16 1"
  "slice 22 24 (wav_header n @ pcm) = le16 1"
  "slice 24 28 (wav_header n @ pcm) = le32 24000"
  "slice 28 32 (wav_header n @ pcm) = le32 48000"
  "slice 32 34 (wav_header n @ pcm) = le16 2"
  "slice 34 36 (wav_header n @ pcm) = le16 16"
  "slice 36 40 (wav_header n @ pcm) = ascii ''data''"
  "slice 40 44 (wav_header n @ pcm) = le32 n"
  "drop 44 (wav_header n @ pcm) = pcm"
  "length (wav_header n @ pcm) = length pcm + 44"
  by (simp_all add: slice_def wav_header_def)

text \<open>
  Claim C2, as amended. For every raw PCM buffer of \<open>N\<close> bytes with \<open>36 + N \<le> 2^32 - 1\<close>,
  encoding at (mono, 16-bit, 24000 Hz) returns a buffer of exactly \<open>N + 44\<close> bytes holding, at the
  canonical offsets, "RIFF", little-endian \<open>36 + N\<close>, "WAVE", "fmt ", 16, format tag 1, channel
  count 1, sample rate 24000, byte rate 48000, block align 2, bit depth 16, "data" and \<open>N\<close>,
  followed by the \<open>N\<close> PCM bytes unchanged.
\<close>

theorem pcmToWav_layout:
  assumes "36 + length pcm \<le> 4294967295"
  shows "\<exists>buf. pcmToWav pcm mono16 = Inr buf \<and> length buf = length pcm + 44
     \<and> slice 0 4 buf = ascii ''RIFF'' \<and> read_le (slice 4 8 buf) = 36 + length pcm
     \<and> slice 8 12 buf = ascii ''WAVE'' \<and> slice 12 16 buf = ascii ''fmt ''
     \<and> read_le (slice 16 20 buf) = 16 \<and> read_le (slice 20 22 buf) = 1
     \<and> read_le (slice 22 24 buf) = 1 \<and> read_le (slice 24 28 buf) = 24000
     \<and> read_le (slice 28 32 buf) = 48000 \<and> read_le (slice 32 34 buf) = 2
     \<and> read_le (slice 34 36 buf) = 16 \<and> slice 36 40 buf = ascii ''data''
     \<and> read_le (slice 40 44 buf) = length pcm \<and> drop 44 buf = pcm"
  using assms
  by (simp add: pcmToWav_mono16 slice_wav_header read_le_le32 read_le_le16)

theorem pcmToWav_layout_witness:
  "\<exists>buf. pcmToWav [1, 2, 3, 4] mono16 = Inr buf \<and> length buf = 48 \<and> read_le (slice 4 8 buf) = 40 \<and> drop 44 buf = [1, 2, 3, 4]"
  using pcmToWav_layout [of "[1, 2, 3, 4]"] by auto

text \<open>
  Claim C2 as stated (for every buffer) fails where \<open>36 + N\<close> no longer fits the 32-bit RIFF
  size field: \<open>writeUInt32LE\<close> raises and no buffer is produced.
\<close>

theorem pcmToWav_oversize: "pcmToWav (replicate 4294967260 0) mono16 = Inl RangeError"
  by (simp add: pcmToWav_def mono16_def or_default_def Let_def Buffer_alloc_def
      buf_write_def writeUInt32LE_def)

section \<open>Strings\<close>

text \<open>
  A JavaScript string is a \<open>string\<close> whose characters are the code units below 256. The white
  space of \<open>String.prototype.trim\<close> and of the regular-expression class \<open>\s\<close> in that range is
  tab, line feed, vertical tab, form feed, carriage return, space and no-break space. An empty
  string is falsy.
\<close>

definition is_space :: "char \<Rightarrow> bool" where
  "is_space c = (c \<in> set [CHR 0x09, CHR 0x0A, CHR 0x0B, CHR 0x0C, CHR 0x0D, CHR 0x20, CHR 0xA0])"

definition trim :: "string \<Rightarrow> string" where
  "trim s = rev (dropWhile is_space (rev (dropWhile is_space s)))"

text \<open>\<open>text.includes(sub)\<close>.\<close>

fun str_includes :: "string \<Rightarrow> string \<Rightarrow> bool" where
  "str_includes [] sub = (sub = [])"
| "str_includes (c # cs) sub = (take (length sub) (c # cs) = sub \<or> str_includes cs sub)"

text \<open>
  \<open>s.replace(/\[[^\]]*\]/g, '')\<close> and \<open>s.replace(/\([^\)]*\)/g, '')\<close>: scanning from the left, an
  opening delimiter that has a closing one somewhere after it is removed together with
  everything up to the first closing delimiter; any other character is kept.
\<close>

function strip_delimited :: "char \<Rightarrow> char \<Rightarrow> string \<Rightarrow> string" where
  "strip_delimited opn cls [] = []"
| "strip_delimited opn cls (c # cs) =
     (if c = opn \<and> cls \<in> set cs
      then strip_delimited opn cls (tl (dropWhile (\<lambda>x. x \<noteq> cls) cs))
      else c # strip_delimited opn cls cs)"
  by pat_completeness auto
termination
proof (relation "measure (\<lambda>(opn, cls, s). length s)")
  fix opn cls :: char and c :: char and cs :: string
  have "length (tl (dropWhile (\<lambda>x. x \<noteq> cls) cs)) \<le> length cs"
    using length_dropWhile_le [of "\<lambda>x. x \<noteq> cls" cs] by simp
  then show "((opn, cls, tl (dropWhile (\<lambda>x. x \<noteq> cls) cs)), (opn, cls, c # cs))
      \<in> measure (\<lambda>(opn, cls, s). length s)"
    by simp
qed simp_all

text \<open>The sanitising of a batch transcription result, before the final \<open>cleanText.trim()\<close>.\<close>

definition cleanText :: "string \<Rightarrow> string" where
  "cleanText text = trim (strip_delimited CHR ''('' CHR '')'' (strip_delimited CHR ''['' CHR '']'' text))"

section \<open>The service state\<close>

datatype speaker = Me | Them

text \<open>
  A provider session handle, as far as the service looks at it: whether it has a
  \<open>sendRealtimeInput\<close> method and whether it has a \<open>transcribeAudio\<close> method. The handle that
  \<open>createSTT\<close> of the gaia provider returns has \<open>transcribe\<close>, \<open>transcribeAudio\<close> and \<open>close\<close> only.
\<close>

record session =
  has_sendRealtimeInput :: bool
  has_transcribeAudio :: bool

definition gaia_session :: session where
  "gaia_session = \<lparr>has_sendRealtimeInput = False, has_transcribeAudio = True\<rparr>"

record model_info =
  provider :: string
  apiKey :: string

text \<open>
  The \<open>data\<close> argument of \<open>sendAudioContent\<close> and \<open>sendSystemAudioContent\<close>: a Buffer, a base64
  string (represented by the bytes it encodes, so that \<open>Buffer.from(data, 'base64')\<close> is
  those bytes) or an array of numbers (\<open>Buffer.from\<close> keeps each modulo 256).
\<close>

datatype audio_data = BufferData buffer | Base64Data buffer | ArrayData "nat list"

fun to_buffer :: "audio_data \<Rightarrow> buffer" where
  "to_buffer (BufferData b) = b"
| "to_buffer (Base64Data b) = b"
| "to_buffer (ArrayData ns) = map of_nat ns"

datatype payload = GeminiAudio audio_data string | RawAudio audio_data

text \<open>
  What the service does to the outside, in order: \<open>sendToRenderer('stt-update', ...)\<close> with
  speaker, text, \<open>isPartial\<close> (\<open>isFinal\<close> is always its negation) and timestamp;
  \<open>sendToRenderer('system-audio-data', ...)\<close> with the mono chunk that is sent base64-encoded;
  the two callbacks; the calls on a provider session; the kill of the capture process;
  \<open>console.error\<close>; and the rejection of the promise that a call of the service returned.
\<close>

datatype effect =
    SttUpdate speaker string bool nat
  | SystemAudioData buffer
  | TranscriptionComplete speaker string
  | StatusUpdate string
  | TranscribeAudio speaker buffer
  | SendRealtimeInput speaker payload
  | SessionClose speaker
  | KillCapture
  | ConsoleError string
  | Rejected js_error

text \<open>
  Timers. \<open>setTimeout\<close> returns a fresh handle and queues the callback with its due time;
  \<open>clearTimeout\<close> removes the queued callback of that handle, if it is still queued. The service
  arms two closures per speaker: the flush of the completion buffer and the sending of the
  buffered audio.
\<close>

datatype callback = FlushCompletion speaker | SendBufferedAudio speaker

datatype timer = Timer (tid: nat) (due: nat) (callback: callback)

text \<open>
  The fields of \<open>SttService\<close> that exist once per speaker (\<open>mySttSession\<close> and
  \<open>theirSttSession\<close>, \<open>myCurrentUtterance\<close> and \<open>theirCurrentUtterance\<close>, and so on) are the
  fields of a \<open>channel\<close>; \<open>my\<close> and \<open>their\<close> hold the two. The source writes each per-speaker
  method twice, once per prefix; the model writes it once, with the speaker as a parameter.
  The state also holds what the runtime keeps: the clock (\<open>Date.now()\<close>), the queued timers,
  the next timer handle and the effects so far; and the variables that the closure of
  \<open>startMacOSAudioCapture\<close> keeps: its \<open>audioBuffer\<close>, its \<open>modelInfo\<close>, and how many
  invocations of its data handler are suspended at \<open>await\<close>.
\<close>

record channel =
  sttSession :: "session option"
  currentUtterance :: string
  completionBuffer :: string
  completionTimer :: "nat option"
  audioBuffer :: "buffer list"
  audioTimer :: "nat option"

record world =
  my :: channel
  their :: channel
  systemAudioProc :: bool
  onTranscriptionComplete :: bool
  onStatusUpdate :: bool
  modelInfo :: "model_info option"
  clock :: nat
  timers :: "timer list"
  nextTimer :: nat
  trace :: "effect list"
  capture_audioBuffer :: buffer
  capture_modelInfo :: "model_info option"
  capture_awaiting :: nat

definition COMPLETION_DEBOUNCE_MS :: nat where
  "COMPLETION_DEBOUNCE_MS = 2000"

definition AUDIO_SEND_INTERVAL :: nat where
  "AUDIO_SEND_INTERVAL = 5000"

text \<open>The state the constructor leaves.\<close>

definition empty_channel :: channel where
  "empty_channel = \<lparr>sttSession = None, currentUtterance = [], completionBuffer = [],
     completionTimer = None, audioBuffer = [], audioTimer = None\<rparr>"

definition constructor :: world where
  "constructor = \<lparr>my = empty_channel, their = empty_channel, systemAudioProc = False,
     onTranscriptionComplete = False, onStatusUpdate = False, modelInfo = None,
     clock = 0, timers = [], nextTimer = 1, trace = [],
     capture_audioBuffer = [], capture_modelInfo = None, capture_awaiting = 0\<rparr>"

fun chan :: "speaker \<Rightarrow> world \<Rightarrow> channel" where
  "chan Me w = my w"
| "chan Them w = their w"

fun upd_chan :: "speaker \<Rightarrow> (channel \<Rightarrow> channel) \<Rightarrow> world \<Rightarrow> world" where
  "upd_chan Me f w = w\<lparr>my := f (my w)\<rparr>"
| "upd_chan Them f w = w\<lparr>their := f (their w)\<rparr>"

definition emit :: "effect list \<Rightarrow> world \<Rightarrow> world" where
  "emit es w = w\<lparr>trace := trace w @ es\<rparr>"

definition setTimeout :: "callback \<Rightarrow> nat \<Rightarrow> world \<Rightarrow> nat \<times> world" where
  "setTimeout cb delay w =
     (nextTimer w,
      w\<lparr>timers := timers w @ [Timer (nextTimer w) (clock w + delay) cb],
        nextTimer := Suc (nextTimer w)\<rparr>)"

definition clearTimeout :: "nat \<Rightarrow> world \<Rightarrow> world" where
  "clearTimeout h w = w\<lparr>timers := filter (\<lambda>t. tid t \<noteq> h) (timers w)\<rparr>"

definition setCallbacks :: "bool \<Rightarrow> bool \<Rightarrow> world \<Rightarrow> world" where
  "setCallbacks c s w = w\<lparr>onTranscriptionComplete := c, onStatusUpdate := s\<rparr>"

section \<open>TurnDebouncer: flush and debounce\<close>

text \<open>\<open>flushMyCompletion\<close> and \<open>flushTheirCompletion\<close>.\<close>

definition flushCompletion :: "speaker \<Rightarrow> world \<Rightarrow> world" where
  "flushCompletion sp w =
     (let finalText = trim (completionBuffer (chan sp w) @ currentUtterance (chan sp w))
      in if modelInfo w = None \<or> finalText = [] then w
         else
           let w1 = emit ((if onTranscriptionComplete w then [TranscriptionComplete sp finalText] else [])
                          @ [SttUpdate sp finalText False (clock w)]) w;
               w2 = upd_chan sp (\<lambda>c. c\<lparr>completionBuffer := [], completionTimer := None,
                                         currentUtterance := []\<rparr>) w1
           in emit (if onStatusUpdate w then [StatusUpdate ''Listening...''] else []) w2)"

text \<open>\<open>debounceMyCompletion\<close> and \<open>debounceTheirCompletion\<close>.\<close>

definition is_gemini :: "world \<Rightarrow> bool" where
  "is_gemini w = (case modelInfo w of None \<Rightarrow> False | Some mi \<Rightarrow> provider mi = ''gemini'')"

definition debounceCompletion :: "speaker \<Rightarrow> string \<Rightarrow> world \<Rightarrow> world" where
  "debounceCompletion sp text w =
     (let w1 = upd_chan sp (\<lambda>c. c\<lparr>completionBuffer :=
                  (if is_gemini w then completionBuffer c @ text
                   else completionBuffer c @ (if completionBuffer c \<noteq> [] then '' '' else []) @ text)\<rparr>) w;
          w2 = (case completionTimer (chan sp w1) of Some h \<Rightarrow> clearTimeout h w1 | None \<Rightarrow> w1);
          (h, w3) = setTimeout (FlushCompletion sp) COMPLETION_DEBOUNCE_MS w2
      in upd_chan sp (\<lambda>c. c\<lparr>completionTimer := Some h\<rparr>) w3)"

section \<open>ProtocolAdapter: the message handlers\<close>

text \<open>
  A provider message, as far as the handlers read it: \<open>serverContent?.turnComplete\<close>,
  \<open>serverContent?.inputTranscription?.text\<close>, \<open>type\<close>, \<open>transcript\<close>, \<open>delta\<close>,
  \<open>alternatives[0]?.transcript\<close> and whether \<open>error\<close> is set. An absent text is the empty
  string, which the handlers treat alike. Messages are objects, so the guard that opens
  \<open>handleTheirMessage\<close> (\<open>!message || typeof message !== 'object'\<close>) is passed.
\<close>

record message =
  turnComplete :: bool
  inputTranscription :: string
  msg_type :: string
  transcript :: string
  delta :: string
  alternative :: string
  msg_error :: bool

definition message_text :: "message \<Rightarrow> string" where
  "message_text m =
     (if transcript m \<noteq> [] then transcript m
      else if delta m \<noteq> [] then delta m
      else if alternative m \<noteq> [] then alternative m
      else [])"

definition log_message_error :: "speaker \<Rightarrow> message \<Rightarrow> world \<Rightarrow> world" where
  "log_message_error sp m w =
     (if msg_error m
      then emit [ConsoleError (case sp of Me \<Rightarrow> ''[Me] STT Session Error:''
                                         | Them \<Rightarrow> ''[Them] STT Session Error:'')] w
      else w)"

text \<open>\<open>handleMyMessage\<close> and \<open>handleTheirMessage\<close>.\<close>

definition handleMessage :: "speaker \<Rightarrow> message \<Rightarrow> world \<Rightarrow> world" where
  "handleMessage sp m w =
     (if modelInfo w = None then w
      else if is_gemini w then
        (if turnComplete m then
           (case completionTimer (chan sp w) of
              Some h \<Rightarrow> flushCompletion sp (clearTimeout h w)
            | None \<Rightarrow> w)
         else if inputTranscription m = [] then w
         else
           let textChunk = inputTranscription m
           in if trim textChunk = [] \<or> trim textChunk = ''<noise>'' then w
              else
                let w1 = debounceCompletion sp textChunk w
                in log_message_error sp m
                     (emit [SttUpdate sp (completionBuffer (chan sp w1)) True (clock w1)] w1))
      else
        (let text = message_text m
         in log_message_error sp m
           (if msg_type m = ''conversation.item.input_audio_transcription.delta'' then
              let w1 = (case completionTimer (chan sp w) of Some h \<Rightarrow> clearTimeout h w | None \<Rightarrow> w);
                  w2 = upd_chan sp (\<lambda>c. c\<lparr>completionTimer := None,
                                            currentUtterance := currentUtterance c @ text\<rparr>) w1;
                  continuousText = completionBuffer (chan sp w2)
                     @ (if completionBuffer (chan sp w2) \<noteq> [] then '' '' else [])
                     @ currentUtterance (chan sp w2)
              in if text \<noteq> [] \<and> \<not> str_includes text ''vq_lbr_audio_''
                 then emit [SttUpdate sp continuousText True (clock w2)] w2
                 else w2
            else if msg_type m = ''conversation.item.input_audio_transcription.completed'' then
              (if text \<noteq> [] \<and> trim text \<noteq> []
               then debounceCompletion sp (trim text)
                      (upd_chan sp (\<lambda>c. c\<lparr>currentUtterance := []\<rparr>) w)
               else w)
            else w)))"


abbreviation flushMyCompletion :: "world \<Rightarrow> world" where
  "flushMyCompletion \<equiv> flushCompletion Me"

abbreviation flushTheirCompletion :: "world \<Rightarrow> world" where
  "flushTheirCompletion \<equiv> flushCompletion Them"

abbreviation debounceMyCompletion :: "string \<Rightarrow> world \<Rightarrow> world" where
  "debounceMyCompletion \<equiv> debounceCompletion Me"

abbreviation debounceTheirCompletion :: "string \<Rightarrow> world \<Rightarrow> world" where
  "debounceTheirCompletion \<equiv> debounceCompletion Them"

abbreviation handleMyMessage :: "message \<Rightarrow> world \<Rightarrow> world" where
  "handleMyMessage \<equiv> handleMessage Me"

abbreviation handleTheirMessage :: "message \<Rightarrow> world \<Rightarrow> world" where
  "handleTheirMessage \<equiv> handleMessage Them"

section \<open>AudioBatcher: \<open>sendAudioContent\<close> and \<open>sendSystemAudioContent\<close>\<close>

text \<open>
  \<open>this.modelInfo\<close>, or else what \<open>getCurrentModelInfo\<close> returns (\<open>fetched\<close>, a parameter: the
  resolver is not part of the service).
\<close>

definition selected_model :: "model_info option \<Rightarrow> world \<Rightarrow> model_info option" where
  "selected_model fetched w = (case modelInfo w of Some mi \<Rightarrow> Some mi | None \<Rightarrow> fetched)"

definition not_active :: "speaker \<Rightarrow> string" where
  "not_active sp = (case sp of Me \<Rightarrow> ''User STT session not active''
                             | Them \<Rightarrow> ''Their STT session not active'')"

text \<open>
  The body of \<open>sendAudioContent\<close> (speaker \<open>Me\<close>) and \<open>sendSystemAudioContent\<close> (speaker
  \<open>Them\<close>). An absent \<open>mimeType\<close> is the empty string. Calling the missing method
  \<open>sendRealtimeInput\<close> raises a TypeError.
\<close>

definition sendAudio ::
  "speaker \<Rightarrow> model_info option \<Rightarrow> audio_data \<Rightarrow> string \<Rightarrow> world \<Rightarrow> js_error + world" where
  "sendAudio sp fetched data mimeType w =
     (case sttSession (chan sp w) of
        None \<Rightarrow> Inl (Error (not_active sp))
      | Some s \<Rightarrow>
         (case selected_model fetched w of
            None \<Rightarrow> Inl (Error ''STT model info could not be retrieved.'')
          | Some mi \<Rightarrow>
             if provider mi = ''gaia'' then
               let bufferData = to_buffer data;
                   w1 = upd_chan sp (\<lambda>c. c\<lparr>audioBuffer := audioBuffer c @ [bufferData]\<rparr>) w
               in if audioTimer (chan sp w1) = None then
                    let (h, w2) = setTimeout (SendBufferedAudio sp) AUDIO_SEND_INTERVAL w1
                    in Inr (upd_chan sp (\<lambda>c. c\<lparr>audioTimer := Some h\<rparr>) w2)
                  else Inr w1
             else
               let payload =
                     (if provider mi = ''gemini''
                      then GeminiAudio data (if mimeType \<noteq> [] then mimeType else ''audio/pcm;rate=24000'')
                      else RawAudio data)
               in if has_sendRealtimeInput s then Inr (emit [SendRealtimeInput sp payload] w)
                  else Inl TypeError))"

abbreviation sendAudioContent ::
  "model_info option \<Rightarrow> audio_data \<Rightarrow> string \<Rightarrow> world \<Rightarrow> js_error + world" where
  "sendAudioContent \<equiv> sendAudio Me"

abbreviation sendSystemAudioContent ::
  "model_info option \<Rightarrow> audio_data \<Rightarrow> string \<Rightarrow> world \<Rightarrow> js_error + world" where
  "sendSystemAudioContent \<equiv> sendAudio Them"

definition buffered_audio_error :: "speaker \<Rightarrow> string" where
  "buffered_audio_error sp = (case sp of Me \<Rightarrow> ''Error sending buffered audio:''
                                       | Them \<Rightarrow> ''Error sending buffered system audio:'')"

text \<open>
  The closure armed by \<open>sendAudio\<close>, up to its \<open>await\<close>: it takes the buffered audio, clears the
  buffer and the timer handle, and submits the WAV encoding. Whatever is raised inside its
  \<open>try\<close> (by \<open>pcmToWav\<close>, by a released session, by a session without \<open>transcribeAudio\<close>) is
  caught and logged.
\<close>

definition sendBufferedAudio :: "speaker \<Rightarrow> world \<Rightarrow> world" where
  "sendBufferedAudio sp w =
     (let audioToSend = concat (audioBuffer (chan sp w));
          w1 = upd_chan sp (\<lambda>c. c\<lparr>audioBuffer := [], audioTimer := None\<rparr>) w
      in if length audioToSend > 0 then
           (case pcmToWav audioToSend mono16 of
              Inl e \<Rightarrow> emit [ConsoleError (buffered_audio_error sp)] w1
            | Inr wavBuffer \<Rightarrow>
               (case sttSession (chan sp w1) of
                  None \<Rightarrow> emit [ConsoleError (buffered_audio_error sp)] w1
                | Some s \<Rightarrow>
                   if has_transcribeAudio s then emit [TranscribeAudio sp wavBuffer] w1
                   else emit [ConsoleError (buffered_audio_error sp)] w1))
         else w1)"

text \<open>
  The rest of that closure, run when the promise of \<open>transcribeAudio\<close> settles: with the
  \<open>text\<close> of the result (empty when the result or its text is absent), or with a rejection.
\<close>

definition transcribeAudio_resolved :: "speaker \<Rightarrow> string \<Rightarrow> world \<Rightarrow> world" where
  "transcribeAudio_resolved sp text w =
     (if text \<noteq> [] \<and> trim text \<noteq> [] then
        let w1 = emit ((if onTranscriptionComplete w then [TranscriptionComplete sp (trim text)] else [])
                       @ [SttUpdate sp (trim (cleanText text)) False (clock w)]
                       @ (if onStatusUpdate w then [StatusUpdate ''Listening...''] else [])) w
        in upd_chan sp (\<lambda>c. c\<lparr>completionBuffer := [], currentUtterance := []\<rparr>) w1
      else w)"

definition transcribeAudio_rejected :: "speaker \<Rightarrow> world \<Rightarrow> world" where
  "transcribeAudio_rejected sp w = emit [ConsoleError (buffered_audio_error sp)] w"

section \<open>Downmixer and CaptureSupervisor\<close>

text \<open>
  \<open>convertStereoToMono\<close> copies the first two bytes of every four (reading a 16-bit sample and
  writing it back leaves its two bytes as they are). On a length that is not a multiple of
  four the last read or write is out of range and raises.
\<close>

fun left_samples :: "buffer \<Rightarrow> buffer" where
  "left_samples (a # b # c # d # rest) = a # b # left_samples rest"
| "left_samples rest = []"

definition convertStereoToMono :: "buffer \<Rightarrow> js_error + buffer" where
  "convertStereoToMono stereoBuffer =
     (if length stereoBuffer mod 4 = 0 then Inr (left_samples stereoBuffer) else Inl RangeError)"

definition SAMPLE_RATE :: nat where "SAMPLE_RATE = 24000"
definition BYTES_PER_SAMPLE :: nat where "BYTES_PER_SAMPLE = 2"
definition CHANNELS :: nat where "CHANNELS = 2"

text \<open>\<open>CHUNK_DURATION\<close> is 0.1; the product is 9600 in double arithmetic too.\<close>

definition CHUNK_SIZE :: nat where
  "CHUNK_SIZE = SAMPLE_RATE * BYTES_PER_SAMPLE * CHANNELS div 10"

definition capture_payload :: "world \<Rightarrow> buffer \<Rightarrow> payload" where
  "capture_payload w monoChunk =
     (if (case capture_modelInfo w of None \<Rightarrow> False | Some mi \<Rightarrow> provider mi = ''gemini'')
      then GeminiAudio (Base64Data monoChunk) ''audio/pcm;rate=24000''
      else RawAudio (Base64Data monoChunk))"

text \<open>
  The \<open>while\<close> loop of the data handler of \<open>systemAudioProc.stdout\<close>. It runs until the buffer
  holds less than a chunk or until it suspends at \<open>await sendRealtimeInput\<close>; a call of the
  missing method raises inside the \<open>try\<close>, is logged, and the loop goes on.
\<close>

function capture_loop :: "world \<Rightarrow> world" where
  "capture_loop w =
     (if CHUNK_SIZE \<le> length (capture_audioBuffer w) then
        let chunk = take CHUNK_SIZE (capture_audioBuffer w);
            w1 = w\<lparr>capture_audioBuffer := drop CHUNK_SIZE (capture_audioBuffer w)\<rparr>
        in (case convertStereoToMono chunk of
              Inl e \<Rightarrow> w1
            | Inr monoChunk \<Rightarrow>
               let w2 = emit [SystemAudioData monoChunk] w1
               in (case sttSession (their w2) of
                     None \<Rightarrow> capture_loop w2
                   | Some s \<Rightarrow>
                      if has_sendRealtimeInput s then
                        (emit [SendRealtimeInput Them (capture_payload w2 monoChunk)] w2)
                          \<lparr>capture_awaiting := Suc (capture_awaiting w2)\<rparr>
                      else capture_loop (emit [ConsoleError ''Error sending system audio:''] w2)))
      else w)"
  by pat_completeness auto
termination
  by (relation "measure (\<lambda>w. length (capture_audioBuffer w))")
     (auto simp: emit_def CHUNK_SIZE_def SAMPLE_RATE_def BYTES_PER_SAMPLE_def CHANNELS_def)

declare capture_loop.simps [simp del]

text \<open>A data event of the subprocess, and the resumption of a suspended handler invocation
  (\<open>ok\<close>: the awaited send resolved; otherwise it rejected and the \<open>catch\<close> logs).\<close>

definition capture_data :: "buffer \<Rightarrow> world \<Rightarrow> world" where
  "capture_data data w = capture_loop (w\<lparr>capture_audioBuffer := capture_audioBuffer w @ data\<rparr>)"

definition capture_resume :: "bool \<Rightarrow> world \<Rightarrow> world" where
  "capture_resume ok w =
     (if capture_awaiting w = 0 then w
      else
        let w1 = w\<lparr>capture_awaiting := capture_awaiting w - 1\<rparr>
        in capture_loop (if ok then w1 else emit [ConsoleError ''Error sending system audio:''] w1))"

text \<open>
  \<open>startMacOSAudioCapture\<close> suspends twice: at \<open>await this.killExistingSystemAudioDump()\<close>, and
  at \<open>await getCurrentModelInfo(...)\<close> when \<open>this.modelInfo\<close> is not set. The part that runs
  between the two takes whether the spawned process has a pid; it returns no result when it
  suspends at the second \<open>await\<close>. The part after the second \<open>await\<close> takes what the resolver
  returned. Registering the data handler starts a capture closure with an empty buffer.
\<close>

definition capture_register :: "model_info \<Rightarrow> world \<Rightarrow> world" where
  "capture_register mi w =
     w\<lparr>capture_audioBuffer := [], capture_modelInfo := Some mi, capture_awaiting := 0\<rparr>"

definition startMacOSAudioCapture_spawn :: "bool \<Rightarrow> world \<Rightarrow> (js_error + bool) option \<times> world" where
  "startMacOSAudioCapture_spawn pid w =
     (let w1 = w\<lparr>systemAudioProc := True\<rparr>
      in if \<not> pid then (Some (Inr False), emit [ConsoleError ''Failed to start SystemAudioDump''] w1)
         else
           (case modelInfo w1 of
              Some mi \<Rightarrow> (Some (Inr True), capture_register mi w1)
            | None \<Rightarrow> (None, w1)))"

definition startMacOSAudioCapture_fetched :: "model_info option \<Rightarrow> world \<Rightarrow> (js_error + bool) \<times> world" where
  "startMacOSAudioCapture_fetched fetched w =
     (case fetched of
        None \<Rightarrow> (Inl (Error ''STT model info could not be retrieved.''), w)
      | Some mi \<Rightarrow> (Inr True, capture_register mi w))"

definition stopMacOSAudioCapture :: "world \<Rightarrow> world" where
  "stopMacOSAudioCapture w =
     (if systemAudioProc w then (emit [KillCapture] w)\<lparr>systemAudioProc := False\<rparr> else w)"

section \<open>SessionCoordinator\<close>

text \<open>
  \<open>initializeSttSessions\<close> suspends at \<open>await getCurrentModelInfo(...)\<close> before it touches the
  service, and at \<open>await Promise.all([createSTT(...), createSTT(...)])\<close> after it has assigned
  \<open>this.modelInfo\<close>. The first part takes what the resolver returned and runs up to the second
  \<open>await\<close>; the second part takes the two handles that \<open>createSTT\<close> resolved to, assigns them,
  and then reads \<open>this.modelInfo.provider\<close> for the capability check, which raises a
  \<open>TypeError\<close> when \<open>this.modelInfo\<close> has been reset in the meantime.
\<close>

definition initializeSttSessions_begin ::
  "model_info option \<Rightarrow> world \<Rightarrow> (js_error + unit) \<times> world" where
  "initializeSttSessions_begin fetched w =
     (case fetched of
        None \<Rightarrow> (Inl (Error ''AI model or API key is not configured.''), w)
      | Some mi \<Rightarrow>
         if apiKey mi = [] then (Inl (Error ''AI model or API key is not configured.''), w)
         else (Inr (), w\<lparr>modelInfo := Some mi\<rparr>))"

definition initializeSttSessions_end ::
  "session \<Rightarrow> session \<Rightarrow> world \<Rightarrow> (js_error + bool) \<times> world" where
  "initializeSttSessions_end s1 s2 w =
     (let w1 = upd_chan Them (\<lambda>c. c\<lparr>sttSession := Some s2\<rparr>)
                 (upd_chan Me (\<lambda>c. c\<lparr>sttSession := Some s1\<rparr>) w)
      in case modelInfo w1 of
           None \<Rightarrow> (Inl TypeError, w1)
         | Some mi \<Rightarrow>
            if provider mi = ''gaia'' then (Inr True, w1)
            else if \<not> has_sendRealtimeInput s1 \<or> \<not> has_sendRealtimeInput s2
            then (Inl (Error (''[SttService] STT session does not implement sendRealtimeInput. ''
                    @ ''Check your createSTT factory and provider implementation.'')), w1)
            else (Inr True, w1))"

text \<open>
  \<open>closeSessions\<close> suspends at \<open>await Promise.all(closePromises)\<close>. The part before it stops the
  capture, clears the armed timers, and calls \<open>close\<close> on each session that is set; the part
  after it, which runs only when every \<open>close\<close> resolved, resets the utterances, the completion
  buffers and \<open>this.modelInfo\<close>.
\<close>

definition cancel_completion :: "speaker \<Rightarrow> world \<Rightarrow> world" where
  "cancel_completion sp w =
     (case completionTimer (chan sp w) of
        Some h \<Rightarrow> upd_chan sp (\<lambda>c. c\<lparr>completionTimer := None\<rparr>) (clearTimeout h w)
      | None \<Rightarrow> w)"

definition cancel_audio :: "speaker \<Rightarrow> world \<Rightarrow> world" where
  "cancel_audio sp w =
     (case audioTimer (chan sp w) of
        Some h \<Rightarrow> upd_chan sp (\<lambda>c. c\<lparr>audioTimer := None, audioBuffer := []\<rparr>) (clearTimeout h w)
      | None \<Rightarrow> w)"

definition release :: "speaker \<Rightarrow> world \<Rightarrow> world" where
  "release sp w =
     (case sttSession (chan sp w) of
        Some s \<Rightarrow> upd_chan sp (\<lambda>c. c\<lparr>sttSession := None\<rparr>) (emit [SessionClose sp] w)
      | None \<Rightarrow> w)"

definition closeSessions_begin :: "world \<Rightarrow> world" where
  "closeSessions_begin w =
     release Them (release Me
       (cancel_audio Them (cancel_audio Me
         (cancel_completion Them (cancel_completion Me
           (stopMacOSAudioCapture w))))))"

definition closeSessions_end :: "world \<Rightarrow> world" where
  "closeSessions_end w =
     (upd_chan Them (\<lambda>c. c\<lparr>currentUtterance := [], completionBuffer := []\<rparr>)
       (upd_chan Me (\<lambda>c. c\<lparr>currentUtterance := [], completionBuffer := []\<rparr>) w))
     \<lparr>modelInfo := None\<rparr>"

section \<open>Time and events\<close>

text \<open>
  A queued timer runs when the clock reaches its due time, the earliest first (the first
  queued among equals). \<open>advance t\<close> lets the clock reach \<open>t\<close>.
\<close>

fun earliest :: "timer list \<Rightarrow> timer option" where
  "earliest [] = None"
| "earliest (x # xs) =
     (case earliest xs of
        None \<Rightarrow> Some x
      | Some y \<Rightarrow> if due x \<le> due y then Some x else Some y)"

definition run_callback :: "callback \<Rightarrow> world \<Rightarrow> world" where
  "run_callback cb w =
     (case cb of
        FlushCompletion sp \<Rightarrow> flushCompletion sp w
      | SendBufferedAudio sp \<Rightarrow> sendBufferedAudio sp w)"

definition fire :: "timer \<Rightarrow> world \<Rightarrow> world" where
  "fire x w =
     run_callback (callback x)
       (w\<lparr>timers := filter (\<lambda>y. tid y \<noteq> tid x) (timers w), clock := max (clock w) (due x)\<rparr>)"

lemma timers_upd_chan [simp]: "timers (upd_chan sp f w) = timers w"
  by (cases sp) simp_all

lemma timers_emit [simp]: "timers (emit es w) = timers w"
  by (simp add: emit_def)

lemma timers_flushCompletion [simp]: "timers (flushCompletion sp w) = timers w"
  by (simp add: flushCompletion_def Let_def)

lemma timers_sendBufferedAudio [simp]: "timers (sendBufferedAudio sp w) = timers w"
  by (simp add: sendBufferedAudio_def Let_def split: sum.splits option.splits)

lemma timers_run_callback [simp]: "timers (run_callback cb w) = timers w"
  by (simp add: run_callback_def split: callback.splits)

lemma earliest_in_set: "earliest xs = Some x \<Longrightarrow> x \<in> set xs"
  by (induction xs arbitrary: x) (auto split: option.splits if_splits)

function advance :: "nat \<Rightarrow> world \<Rightarrow> world" where
  "advance t w =
     (case earliest (filter (\<lambda>x. due x \<le> t) (timers w)) of
        None \<Rightarrow> w\<lparr>clock := max (clock w) t\<rparr>
      | Some x \<Rightarrow> advance t (fire x w))"
  by pat_completeness auto
termination
proof (relation "measure (\<lambda>(t, w). length (timers w))")
  fix t :: nat and w :: world and x :: timer
  assume "earliest (filter (\<lambda>x. due x \<le> t) (timers w)) = Some x"
  then have "x \<in> set (timers w)"
    by (auto dest: earliest_in_set)
  then have "length (filter (\<lambda>y. tid y \<noteq> tid x) (timers w)) < length (timers w)"
    by (intro length_filter_less [of x]) simp_all
  then show "((t, fire x w), (t, w)) \<in> measure (\<lambda>(t, w). length (timers w))"
    by (simp add: fire_def)
qed simp

declare advance.simps [simp del]

text \<open>
  What can happen to the service, one event at a time. An asynchronous method of the service
  is one event for each of its parts between two \<open>await\<close>s, so that anything else may happen
  while it is suspended. A call that raises adds the rejection to the trace.
\<close>

datatype event =
    Elapse nat
  | Message speaker message
  | Audio speaker "model_info option" audio_data string
  | Transcribed speaker string
  | TranscribeFailed speaker
  | CaptureData buffer
  | CaptureResume bool
  | CaptureSpawn bool
  | CaptureFetched "model_info option"
  | StopCapture
  | SetCallbacks bool bool
  | InitializeBegin "model_info option"
  | InitializeEnd session session
  | CloseBegin
  | CloseEnd

definition settle :: "(js_error + 'a) \<times> world \<Rightarrow> world" where
  "settle r = (case fst r of Inl e \<Rightarrow> emit [Rejected e] (snd r) | Inr v \<Rightarrow> snd r)"

fun step :: "event \<Rightarrow> world \<Rightarrow> world" where
  "step (Elapse d) w = advance (clock w + d) w"
| "step (Message sp m) w = handleMessage sp m w"
| "step (Audio sp fetched data mimeType) w =
     (case sendAudio sp fetched data mimeType w of Inl e \<Rightarrow> emit [Rejected e] w | Inr w' \<Rightarrow> w')"
| "step (Transcribed sp text) w = transcribeAudio_resolved sp text w"
| "step (TranscribeFailed sp) w = transcribeAudio_rejected sp w"
| "step (CaptureData data) w = capture_data data w"
| "step (CaptureResume ok) w = capture_resume ok w"
| "step (CaptureSpawn pid) w = snd (startMacOSAudioCapture_spawn pid w)"
| "step (CaptureFetched fetched) w = settle (startMacOSAudioCapture_fetched fetched w)"
| "step StopCapture w = stopMacOSAudioCapture w"
| "step (SetCallbacks c s) w = setCallbacks c s w"
| "step (InitializeBegin fetched) w = settle (initializeSttSessions_begin fetched w)"
| "step (InitializeEnd s1 s2) w = settle (initializeSttSessions_end s1 s2 w)"
| "step CloseBegin w = closeSessions_begin w"
| "step CloseEnd w = closeSessions_end w"

fun run :: "event list \<Rightarrow> world \<Rightarrow> world" where
  "run [] w = w"
| "run (e # es) w = run es (step e w)"

section \<open>The asynchronous methods as a whole\<close>

text \<open>
  Each method takes, besides what its awaited calls return, the events that happen while it
  is suspended at each \<open>await\<close>. \<open>createSTT\<close> either rejects or resolves to two handles;
  \<open>Promise.all(closePromises)\<close> either rejects with an error or resolves.
\<close>

definition initializeSttSessions ::
  "model_info option \<Rightarrow> event list \<Rightarrow> js_error + session \<times> session \<Rightarrow> world
     \<Rightarrow> (js_error + bool) \<times> world" where
  "initializeSttSessions fetched during created w =
     (case initializeSttSessions_begin fetched w of
        (Inl e, w1) \<Rightarrow> (Inl e, w1)
      | (Inr u, w1) \<Rightarrow>
         (case created of
            Inl e \<Rightarrow> (Inl e, run during w1)
          | Inr (s1, s2) \<Rightarrow> initializeSttSessions_end s1 s2 (run during w1)))"

definition startMacOSAudioCapture ::
  "bool \<Rightarrow> event list \<Rightarrow> bool \<Rightarrow> event list \<Rightarrow> model_info option \<Rightarrow> world
     \<Rightarrow> (js_error + bool) \<times> world" where
  "startMacOSAudioCapture darwin during_kill pid during_fetch fetched w =
     (if \<not> darwin \<or> sttSession (their w) = None then (Inr False, w)
      else
        (case startMacOSAudioCapture_spawn pid (run during_kill w) of
           (Some r, w1) \<Rightarrow> (r, w1)
         | (None, w1) \<Rightarrow> startMacOSAudioCapture_fetched fetched (run during_fetch w1)))"

definition closeSessions :: "event list \<Rightarrow> js_error option \<Rightarrow> world \<Rightarrow> js_error option \<times> world" where
  "closeSessions during rejected w =
     (let w1 = run during (closeSessions_begin w)
      in case rejected of
           Some e \<Rightarrow> (Some e, w1)
         | None \<Rightarrow> (None, closeSessions_end w1))"

section \<open>Projections\<close>

lemma chan_upd_chan [simp]:
  "chan sp (upd_chan sp' f w) = (if sp = sp' then f (chan sp w) else chan sp w)"
  by (cases sp; cases sp') simp_all

lemma upd_chan_fields [simp]:
  "modelInfo (upd_chan sp f w) = modelInfo w"
  "clock (upd_chan sp f w) = clock w"
  "nextTimer (upd_chan sp f w) = nextTimer w"
  "trace (upd_chan sp f w) = trace w"
  "onTranscriptionComplete (upd_chan sp f w) = onTranscriptionComplete w"
  "onStatusUpdate (upd_chan sp f w) = onStatusUpdate w"
  "systemAudioProc (upd_chan sp f w) = systemAudioProc w"
  "capture_audioBuffer (upd_chan sp f w) = capture_audioBuffer w"
  "capture_modelInfo (upd_chan sp f w) = capture_modelInfo w"
  "capture_awaiting (upd_chan sp f w) = capture_awaiting w"
  by (cases sp; simp)+

lemma chan_world_update [simp]:
  "chan sp (w\<lparr>timers := ts\<rparr>) = chan sp w"
  "chan sp (w\<lparr>clock := c\<rparr>) = chan sp w"
  "chan sp (w\<lparr>nextTimer := n\<rparr>) = chan sp w"
  "chan sp (w\<lparr>trace := tr\<rparr>) = chan sp w"
  "chan sp (w\<lparr>modelInfo := mi\<rparr>) = chan sp w"
  "chan sp (w\<lparr>systemAudioProc := b\<rparr>) = chan sp w"
  "chan sp (w\<lparr>onTranscriptionComplete := b\<rparr>) = chan sp w"
  "chan sp (w\<lparr>onStatusUpdate := b\<rparr>) = chan sp w"
  "chan sp (w\<lparr>capture_audioBuffer := cb\<rparr>) = chan sp w"
  "chan sp (w\<lparr>capture_modelInfo := cm\<rparr>) = chan sp w"
  "chan sp (w\<lparr>capture_awaiting := ca\<rparr>) = chan sp w"
  by (cases sp; simp)+

lemma chan_my_their_update [simp]:
  "chan sp (w\<lparr>my := c\<rparr>) = (if sp = Me then c else chan sp w)"
  "chan sp (w\<lparr>their := c\<rparr>) = (if sp = Them then c else chan sp w)"
  by (cases sp; simp)+

lemma emit_fields [simp]:
  "chan sp (emit es w) = chan sp w"
  "modelInfo (emit es w) = modelInfo w"
  "clock (emit es w) = clock w"
  "nextTimer (emit es w) = nextTimer w"
  "trace (emit es w) = trace w @ es"
  "onTranscriptionComplete (emit es w) = onTranscriptionComplete w"
  "onStatusUpdate (emit es w) = onStatusUpdate w"
  "systemAudioProc (emit es w) = systemAudioProc w"
  "capture_audioBuffer (emit es w) = capture_audioBuffer w"
  "capture_modelInfo (emit es w) = capture_modelInfo w"
  "capture_awaiting (emit es w) = capture_awaiting w"
  by (simp_all add: emit_def)

lemma clearTimeout_fields [simp]:
  "chan sp (clearTimeout h w) = chan sp w"
  "modelInfo (clearTimeout h w) = modelInfo w"
  "clock (clearTimeout h w) = clock w"
  "nextTimer (clearTimeout h w) = nextTimer w"
  "trace (clearTimeout h w) = trace w"
  "timers (clearTimeout h w) = filter (\<lambda>t. tid t \<noteq> h) (timers w)"
  "onTranscriptionComplete (clearTimeout h w) = onTranscriptionComplete w"
  "onStatusUpdate (clearTimeout h w) = onStatusUpdate w"
  "systemAudioProc (clearTimeout h w) = systemAudioProc w"
  "capture_audioBuffer (clearTimeout h w) = capture_audioBuffer w"
  "capture_modelInfo (clearTimeout h w) = capture_modelInfo w"
  "capture_awaiting (clearTimeout h w) = capture_awaiting w"
  by (simp_all add: clearTimeout_def)

lemma is_gemini_simps [simp]:
  "is_gemini (upd_chan sp f w) = is_gemini w"
  "is_gemini (emit es w) = is_gemini w"
  "is_gemini (clearTimeout h w) = is_gemini w"
  "is_gemini (w\<lparr>timers := ts\<rparr>) = is_gemini w"
  "is_gemini (w\<lparr>clock := c\<rparr>) = is_gemini w"
  by (simp_all add: is_gemini_def)

section \<open>Trimming\<close>

lemma trim_Nil [simp]: "trim [] = []"
  by (simp add: trim_def)

lemma trim_ends:
  assumes "trim s \<noteq> []"
  shows "\<not> is_space (hd (trim s))" and "\<not> is_space (last (trim s))"
proof -
  let ?a = "dropWhile is_space s"
  let ?b = "dropWhile is_space (rev ?a)"
  have b: "?b \<noteq> []" using assms by (simp add: trim_def)
  then have hb: "\<not> is_space (hd ?b)" by (rule hd_dropWhile)
  then show "\<not> is_space (last (trim s))"
    using b by (simp add: trim_def last_rev)
  have a: "?a \<noteq> []"
  proof
    assume e: "?a = []"
    have "?b = []" unfolding e by simp
    with b show False by simp
  qed
  then have ha: "\<not> is_space (hd ?a)" by (rule hd_dropWhile)
  have "rev ?a = takeWhile is_space (rev ?a) @ ?b" by simp
  then have "?a = rev ?b @ rev (takeWhile is_space (rev ?a))"
    by (metis rev_append rev_rev_ident)
  then have "hd ?a = hd (rev ?b)" using b by (metis hd_append2 rev_is_Nil_conv)
  with ha show "\<not> is_space (hd (trim s))" by (simp add: trim_def)
qed

lemma trim_id:
  assumes "s \<noteq> []" "\<not> is_space (hd s)" "\<not> is_space (last s)"
  shows "trim s = s"
proof -
  have 1: "dropWhile is_space s = s"
    using assms by (simp add: dropWhile_eq_self_iff)
  have 2: "dropWhile is_space (rev s) = rev s"
    using assms by (simp add: dropWhile_eq_self_iff hd_rev)
  show ?thesis by (simp add: trim_def 1 2)
qed

section \<open>Concrete sessions and messages\<close>

text \<open>
  A session handle of a streaming provider, the state after a successful
  \<open>initializeSttSessions\<close> for a provider during which nothing else happened, and messages of
  each kind.
\<close>

definition realtime_session :: session where
  "realtime_session = \<lparr>has_sendRealtimeInput = True, has_transcribeAudio = False\<rparr>"

definition started :: "string \<Rightarrow> session \<Rightarrow> world" where
  "started p s =
     snd (initializeSttSessions (Some \<lparr>provider = p, apiKey = ''key''\<rparr>) [] (Inr (s, s)) constructor)"

definition blank_message :: message where
  "blank_message = \<lparr>turnComplete = False, inputTranscription = [], msg_type = [], transcript = [],
     delta = [], alternative = [], msg_error = False\<rparr>"

definition delta_message :: "string \<Rightarrow> message" where
  "delta_message s = blank_message\<lparr>msg_type := ''conversation.item.input_audio_transcription.delta'', delta := s\<rparr>"

definition completed_message :: "string \<Rightarrow> message" where
  "completed_message s = blank_message\<lparr>msg_type := ''conversation.item.input_audio_transcription.completed'', transcript := s\<rparr>"

definition transcription_message :: "string \<Rightarrow> message" where
  "transcription_message s = blank_message\<lparr>inputTranscription := s\<rparr>"

definition turn_complete_message :: message where
  "turn_complete_message = blank_message\<lparr>turnComplete := True\<rparr>"

section \<open>Reachable states\<close>

text \<open>
  What holds in every state the service can reach. Queued timers have distinct handles, all
  below the next handle, and the handle of each is the one stored in the field of its speaker
  and kind (\<open>timers_ok\<close>); and a speaker's audio buffer is non-empty only while that speaker's
  audio timer handle is set (\<open>buffers_ok\<close>).
\<close>

definition handle_of :: "callback \<Rightarrow> world \<Rightarrow> nat option" where
  "handle_of cb w =
     (case cb of
        FlushCompletion sp \<Rightarrow> completionTimer (chan sp w)
      | SendBufferedAudio sp \<Rightarrow> audioTimer (chan sp w))"

definition timers_ok :: "world \<Rightarrow> bool" where
  "timers_ok w \<longleftrightarrow>
     distinct (map tid (timers w))
     \<and> (\<forall>t \<in> set (timers w). tid t < nextTimer w)
     \<and> (\<forall>t \<in> set (timers w). handle_of (callback t) w = Some (tid t))"

definition buffers_ok :: "world \<Rightarrow> bool" where
  "buffers_ok w \<longleftrightarrow>
     (audioBuffer (my w) \<noteq> [] \<longrightarrow> audioTimer (my w) \<noteq> None)
     \<and> (audioBuffer (their w) \<noteq> [] \<longrightarrow> audioTimer (their w) \<noteq> None)"

definition consistent :: "world \<Rightarrow> bool" where
  "consistent w \<longleftrightarrow> timers_ok w \<and> buffers_ok w"

lemma buffers_ok_chan:
  "buffers_ok w \<longleftrightarrow> (\<forall>sp. audioBuffer (chan sp w) \<noteq> [] \<longrightarrow> audioTimer (chan sp w) \<noteq> None)"
proof -
  have "(\<forall>sp. P sp) \<longleftrightarrow> P Me \<and> P Them" for P
    by (metis speaker.exhaust)
  then show ?thesis by (simp add: buffers_ok_def)
qed

lemma consistent_frame:
  assumes "consistent w" "timers w' = timers w" "nextTimer w' = nextTimer w"
    and "\<And>sp. completionTimer (chan sp w') = completionTimer (chan sp w)"
    and "\<And>sp. audioTimer (chan sp w') = audioTimer (chan sp w)"
    and "\<And>sp. audioBuffer (chan sp w') = audioBuffer (chan sp w)"
  shows "consistent w'"
  using assms
  by (simp add: consistent_def timers_ok_def buffers_ok_chan handle_of_def split: callback.splits)

lemma consistent_constructor: "consistent constructor"
  by (simp add: consistent_def timers_ok_def buffers_ok_def constructor_def empty_channel_def)

lemma consistent_emit [simp]: "consistent (emit es w) = consistent w"
  by (simp add: consistent_def timers_ok_def buffers_ok_chan handle_of_def split: callback.splits)

lemma consistent_clearTimeout: "consistent w \<Longrightarrow> consistent (clearTimeout h w)"
  by (auto simp: consistent_def timers_ok_def buffers_ok_chan handle_of_def distinct_map_filter
      split: callback.splits)

lemma consistent_flushCompletion:
  assumes "consistent w" "\<forall>t \<in> set (timers w). callback t \<noteq> FlushCompletion sp"
  shows "consistent (flushCompletion sp w)"
  using assms
  by (auto simp: flushCompletion_def Let_def consistent_def timers_ok_def buffers_ok_chan
      handle_of_def split: callback.splits)

lemma consistent_sendBufferedAudio:
  assumes "consistent w" "\<forall>t \<in> set (timers w). callback t \<noteq> SendBufferedAudio sp"
  shows "consistent (sendBufferedAudio sp w)"
  using assms
  by (auto simp: sendBufferedAudio_def Let_def consistent_def timers_ok_def buffers_ok_chan
      handle_of_def split: callback.splits sum.splits option.splits)


lemma consistent_fire:
  assumes "consistent w" "x \<in> set (timers w)"
  shows "consistent (fire x w)"
proof -
  let ?w = "w\<lparr>timers := filter (\<lambda>y. tid y \<noteq> tid x) (timers w), clock := max (clock w) (due x)\<rparr>"
  have c: "consistent ?w"
    using assms(1)
    by (auto simp: consistent_def timers_ok_def buffers_ok_chan handle_of_def distinct_map_filter
        split: callback.splits)
  have gone: "\<forall>t \<in> set (timers ?w). callback t \<noteq> callback x"
  proof
    fix t assume t: "t \<in> set (timers ?w)"
    show "callback t \<noteq> callback x"
    proof
      assume "callback t = callback x"
      moreover have "handle_of (callback t) w = Some (tid t)" "handle_of (callback x) w = Some (tid x)"
        using assms t by (auto simp: consistent_def timers_ok_def)
      ultimately have "tid t = tid x" by simp
      with t show False by simp
    qed
  qed
  show ?thesis
  proof (cases "callback x")
    case (FlushCompletion sp)
    with gone c show ?thesis
      by (simp add: fire_def run_callback_def consistent_flushCompletion)
  next
    case (SendBufferedAudio sp)
    with gone c show ?thesis
      by (simp add: fire_def run_callback_def consistent_sendBufferedAudio)
  qed
qed

lemma consistent_advance: "consistent w \<Longrightarrow> consistent (advance t w)"
proof (induction t w rule: advance.induct)
  case (1 t w)
  show ?case
  proof (cases "earliest (filter (\<lambda>x. due x \<le> t) (timers w))")
    case None
    have "consistent (w\<lparr>clock := max (clock w) t\<rparr>)"
      by (rule consistent_frame [OF "1.prems"]) simp_all
    with None show ?thesis by (subst advance.simps) simp
  next
    case (Some x)
    then have "x \<in> set (timers w)" by (auto dest: earliest_in_set)
    then have "consistent (fire x w)" using "1.prems" by (rule consistent_fire [rotated])
    then have "consistent (advance t (fire x w))" using Some by (rule "1.IH" [rotated])
    with Some show ?thesis by (subst advance.simps) simp
  qed
qed

lemma consistent_debounceCompletion:
  assumes "consistent w"
  shows "consistent (debounceCompletion sp text w)"
  using assms
  by (auto simp: debounceCompletion_def Let_def setTimeout_def consistent_def timers_ok_def
      buffers_ok_chan handle_of_def distinct_map_filter less_Suc_eq
      split: callback.splits option.splits)

lemma consistent_upd_text:
  assumes "consistent w"
    and "\<And>c. completionTimer (f c) = completionTimer c"
    and "\<And>c. audioTimer (f c) = audioTimer c"
    and "\<And>c. audioBuffer (f c) = audioBuffer c"
  shows "consistent (upd_chan sp f w)"
  by (rule consistent_frame [OF assms(1)]) (simp_all add: assms)

lemma no_flush_after_clear:
  assumes "consistent w" "completionTimer (chan sp w) = Some h"
  shows "\<forall>t \<in> set (timers (clearTimeout h w)). callback t \<noteq> FlushCompletion sp"
  using assms by (auto simp: consistent_def timers_ok_def handle_of_def)

lemma consistent_handleMessage:
  assumes "consistent w"
  shows "consistent (handleMessage sp m w)"
proof -
  have delta: "consistent (upd_chan sp f
        (case completionTimer (chan sp w) of Some h \<Rightarrow> clearTimeout h w | None \<Rightarrow> w))"
    if "\<And>c. completionTimer (f c) = None" "\<And>c. audioTimer (f c) = audioTimer c"
      "\<And>c. audioBuffer (f c) = audioBuffer c" for f
    using assms that
    by (auto simp: consistent_def timers_ok_def buffers_ok_chan handle_of_def distinct_map_filter
        split: callback.splits option.splits)
  have compl: "consistent (debounceCompletion sp u
      (upd_chan sp (\<lambda>c. c\<lparr>currentUtterance := []\<rparr>) w))" for u
    by (intro consistent_debounceCompletion consistent_upd_text assms) simp_all
  have turn: "consistent (case completionTimer (chan sp w) of
      Some h \<Rightarrow> flushCompletion sp (clearTimeout h w) | None \<Rightarrow> w)"
  proof (cases "completionTimer (chan sp w)")
    case None
    with assms show ?thesis by simp
  next
    case (Some h)
    have "consistent (flushCompletion sp (clearTimeout h w))"
      by (intro consistent_flushCompletion consistent_clearTimeout assms
          no_flush_after_clear [OF assms Some])
    with Some show ?thesis by simp
  qed
  show ?thesis
    by (simp add: handleMessage_def Let_def log_message_error_def delta compl turn assms
        consistent_debounceCompletion)
qed

lemma fresh_handle: "timers_ok w \<Longrightarrow> t \<in> set (timers w) \<Longrightarrow> tid t \<noteq> nextTimer w"
  by (auto simp: timers_ok_def)

lemma consistent_arm_audio:
  assumes "consistent w" "audioTimer (chan sp w) = None"
  shows "consistent (upd_chan sp (\<lambda>c. c\<lparr>audioTimer := Some (nextTimer w)\<rparr>)
           (upd_chan sp (\<lambda>c. c\<lparr>audioBuffer := audioBuffer c @ [b]\<rparr>) w
             \<lparr>timers := timers w @ [Timer (nextTimer w) d (SendBufferedAudio sp)],
               nextTimer := Suc (nextTimer w)\<rparr>))"
proof -
  have fresh: "\<forall>t \<in> set (timers w). tid t \<noteq> nextTimer w"
    using assms(1) by (auto simp: consistent_def dest: fresh_handle)
  have none: "\<forall>t \<in> set (timers w). callback t \<noteq> SendBufferedAudio sp"
    using assms by (auto simp: consistent_def timers_ok_def handle_of_def)
  show ?thesis
    using assms(1) fresh none
    by (auto simp: consistent_def timers_ok_def buffers_ok_chan handle_of_def less_Suc_eq
        split: callback.splits)
qed

lemma consistent_append_audio:
  assumes "consistent w" "audioTimer (chan sp w) \<noteq> None"
  shows "consistent (upd_chan sp (\<lambda>c. c\<lparr>audioBuffer := audioBuffer c @ [b]\<rparr>) w)"
  using assms
  by (auto simp: consistent_def timers_ok_def buffers_ok_chan handle_of_def split: callback.splits)

lemma sendAudio_gaia:
  assumes "sttSession (chan sp w) = Some s" "selected_model fetched w = Some mi"
    and "provider mi = ''gaia''"
  shows "sendAudio sp fetched data mimeType w =
     Inr (if audioTimer (chan sp w) = None
          then upd_chan sp (\<lambda>c. c\<lparr>audioTimer := Some (nextTimer w)\<rparr>)
                 (upd_chan sp (\<lambda>c. c\<lparr>audioBuffer := audioBuffer c @ [to_buffer data]\<rparr>) w
                   \<lparr>timers := timers w @ [Timer (nextTimer w) (clock w + AUDIO_SEND_INTERVAL)
                                            (SendBufferedAudio sp)],
                     nextTimer := Suc (nextTimer w)\<rparr>)
          else upd_chan sp (\<lambda>c. c\<lparr>audioBuffer := audioBuffer c @ [to_buffer data]\<rparr>) w)"
  using assms by (simp add: sendAudio_def Let_def setTimeout_def)

lemma consistent_sendAudio:
  assumes "consistent w" "sendAudio sp fetched data mimeType w = Inr w'"
  shows "consistent w'"
proof -
  from assms(2) obtain s mi where s: "sttSession (chan sp w) = Some s"
    and mi: "selected_model fetched w = Some mi"
    by (auto simp: sendAudio_def split: option.splits)
  show ?thesis
  proof (cases "provider mi = ''gaia''")
    case True
    from assms(2) show ?thesis
      unfolding sendAudio_gaia [OF s mi True]
      using consistent_arm_audio [OF assms(1)] consistent_append_audio [OF assms(1)]
      by (auto split: if_splits)
  next
    case False
    with assms s mi show ?thesis
      by (auto simp: sendAudio_def Let_def split: if_splits)
  qed
qed

lemma consistent_transcribeAudio_resolved:
  "consistent w \<Longrightarrow> consistent (transcribeAudio_resolved sp text w)"
  by (auto simp: transcribeAudio_resolved_def Let_def intro!: consistent_upd_text)

lemma capture_loop_frame:
  "timers (capture_loop w) = timers w \<and> nextTimer (capture_loop w) = nextTimer w
   \<and> my (capture_loop w) = my w \<and> their (capture_loop w) = their w
   \<and> modelInfo (capture_loop w) = modelInfo w \<and> clock (capture_loop w) = clock w"
proof (induction w rule: capture_loop.induct)
  case (1 w)
  show ?case
  proof (cases "CHUNK_SIZE \<le> length (capture_audioBuffer w)")
    case False
    then show ?thesis by (subst capture_loop.simps, simp)+
  next
    case True
    let ?w1 = "w\<lparr>capture_audioBuffer := drop CHUNK_SIZE (capture_audioBuffer w)\<rparr>"
    show ?thesis
    proof (cases "convertStereoToMono (take CHUNK_SIZE (capture_audioBuffer w))")
      case (Inl e)
      with True show ?thesis by (subst capture_loop.simps, simp)+
    next
      case (Inr monoChunk)
      let ?w2 = "emit [SystemAudioData monoChunk] ?w1"
      show ?thesis
      proof (cases "sttSession (their ?w2)")
        case None
        from "1.IH"(1) [OF True refl refl Inr refl None] None True Inr
        show ?thesis
          by (subst (1 2 3 4 5 6) capture_loop.simps) (simp add: Let_def emit_def)
      next
        case (Some s)
        show ?thesis
        proof (cases "has_sendRealtimeInput s")
          case yes: True
          with Some True Inr show ?thesis
            by (subst (1 2 3 4 5 6) capture_loop.simps) (simp add: Let_def emit_def)
        next
          case no: False
          from "1.IH"(2) [OF True refl refl Inr refl Some no] Some True Inr no
          show ?thesis
            by (subst (1 2 3 4 5 6) capture_loop.simps) (simp add: Let_def emit_def)
        qed
      qed
    qed
  qed
qed

lemma chan_capture_loop [simp]: "chan sp (capture_loop w) = chan sp w"
  by (cases sp) (simp_all add: capture_loop_frame)

lemma consistent_capture_loop: "consistent w \<Longrightarrow> consistent (capture_loop w)"
  by (erule consistent_frame) (simp_all add: capture_loop_frame)

lemma consistent_capture_data: "consistent w \<Longrightarrow> consistent (capture_data data w)"
  unfolding capture_data_def
  by (rule consistent_capture_loop, erule consistent_frame) simp_all

lemma consistent_capture_resume: "consistent w \<Longrightarrow> consistent (capture_resume ok w)"
  unfolding capture_resume_def Let_def
  by (auto intro!: consistent_capture_loop elim: consistent_frame)

lemma consistent_settle: "consistent (snd r) \<Longrightarrow> consistent (settle r)"
  by (simp add: settle_def split: sum.splits)

lemma consistent_capture_register: "consistent w \<Longrightarrow> consistent (capture_register mi w)"
  unfolding capture_register_def by (erule consistent_frame) simp_all

lemma consistent_startMacOSAudioCapture_spawn:
  "consistent w \<Longrightarrow> consistent (snd (startMacOSAudioCapture_spawn pid w))"
  by (auto simp: startMacOSAudioCapture_spawn_def Let_def split: option.splits
      intro!: consistent_capture_register elim: consistent_frame)

lemma consistent_startMacOSAudioCapture_fetched:
  "consistent w \<Longrightarrow> consistent (snd (startMacOSAudioCapture_fetched fetched w))"
  by (auto simp: startMacOSAudioCapture_fetched_def split: option.splits
      intro!: consistent_capture_register)

lemma consistent_stopMacOSAudioCapture:
  "consistent w \<Longrightarrow> consistent (stopMacOSAudioCapture w)"
  by (auto simp: stopMacOSAudioCapture_def emit_def elim: consistent_frame)

lemma consistent_initializeSttSessions_begin:
  "consistent w \<Longrightarrow> consistent (snd (initializeSttSessions_begin fetched w))"
  by (auto simp: initializeSttSessions_begin_def split: option.splits elim!: consistent_frame)

lemma consistent_initializeSttSessions_end:
  "consistent w \<Longrightarrow> consistent (snd (initializeSttSessions_end s1 s2 w))"
  by (auto simp: initializeSttSessions_end_def Let_def split: option.splits elim!: consistent_frame)

lemma consistent_cancel_completion: "consistent w \<Longrightarrow> consistent (cancel_completion sp w)"
  by (auto simp: cancel_completion_def consistent_def timers_ok_def buffers_ok_chan handle_of_def
      distinct_map_filter split: callback.splits option.splits)

lemma consistent_cancel_audio: "consistent w \<Longrightarrow> consistent (cancel_audio sp w)"
  by (auto simp: cancel_audio_def consistent_def timers_ok_def buffers_ok_chan handle_of_def
      distinct_map_filter split: callback.splits option.splits)

lemma consistent_release: "consistent w \<Longrightarrow> consistent (release sp w)"
  by (auto simp: release_def split: option.splits intro!: consistent_upd_text)

lemma consistent_closeSessions_begin: "consistent w \<Longrightarrow> consistent (closeSessions_begin w)"
  unfolding closeSessions_begin_def
  by (intro consistent_release consistent_cancel_audio consistent_cancel_completion
      consistent_stopMacOSAudioCapture)

lemma consistent_closeSessions_end: "consistent w \<Longrightarrow> consistent (closeSessions_end w)"
  unfolding closeSessions_end_def
  by (erule consistent_frame) simp_all

lemma consistent_step: "consistent w \<Longrightarrow> consistent (step e w)"
proof (cases e)
  case (Audio sp fetched data mimeType)
  assume "consistent w"
  with Audio show ?thesis
    by (auto split: sum.splits dest: consistent_sendAudio)
next
  case (SetCallbacks c s)
  assume "consistent w"
  then have "consistent (setCallbacks c s w)"
    unfolding setCallbacks_def by (rule consistent_frame) simp_all
  with SetCallbacks show ?thesis by simp
qed (simp_all add: consistent_advance consistent_handleMessage
      consistent_transcribeAudio_resolved transcribeAudio_rejected_def consistent_capture_data
      consistent_capture_resume consistent_startMacOSAudioCapture_spawn consistent_settle
      consistent_startMacOSAudioCapture_fetched consistent_stopMacOSAudioCapture
      consistent_initializeSttSessions_begin consistent_initializeSttSessions_end
      consistent_closeSessions_begin consistent_closeSessions_end)

lemma consistent_run: "consistent w \<Longrightarrow> consistent (run es w)"
  by (induction es arbitrary: w) (simp_all add: consistent_step)

lemma consistent_reachable: "consistent (run es constructor)"
  by (rule consistent_run [OF consistent_constructor])

section \<open>Delivering messages over time\<close>

text \<open>
  The final transcript events of a trace: speaker, text and timestamp of every
  \<open>stt-update\<close> with \<open>isPartial: false\<close>. A delivery is a list of messages, each with the gap in
  milliseconds since the event before it. The two message kinds of the delta-streaming
  providers, and the space-joined concatenation that claim C1 speaks of.
\<close>

fun final_event :: "effect \<Rightarrow> (speaker \<times> string \<times> nat) list" where
  "final_event (SttUpdate sp text isPartial ts) = (if isPartial then [] else [(sp, text, ts)])"
| "final_event e = []"

definition final_events :: "effect list \<Rightarrow> (speaker \<times> string \<times> nat) list" where
  "final_events es = concat (map final_event es)"

definition is_delta :: "message \<Rightarrow> bool" where
  "is_delta m = (msg_type m = ''conversation.item.input_audio_transcription.delta'')"

definition is_completed :: "message \<Rightarrow> bool" where
  "is_completed m = (msg_type m = ''conversation.item.input_audio_transcription.completed''
     \<and> trim (message_text m) \<noteq> [])"

fun space_join :: "string list \<Rightarrow> string" where
  "space_join [] = []"
| "space_join [x] = x"
| "space_join (x # y # ys) = x @ '' '' @ space_join (y # ys)"

definition deliver :: "speaker \<Rightarrow> (nat \<times> message) list \<Rightarrow> event list" where
  "deliver sp gms = concat (map (\<lambda>(g, m). [Elapse g, Message sp m]) gms)"

definition completed_texts :: "(nat \<times> message) list \<Rightarrow> string list" where
  "completed_texts gms = map (\<lambda>(g, m). trim (message_text m)) (filter (\<lambda>(g, m). is_completed m) gms)"

lemma final_events_simps [simp]:
  "final_events [] = []"
  "final_events (es @ es') = final_events es @ final_events es'"
  "final_events (e # es) = final_event e @ final_events es"
  by (simp_all add: final_events_def)

lemma run_append: "run (es @ es') w = run es' (run es w)"
  by (induction es arbitrary: w) simp_all

lemma deliver_simps [simp]:
  "deliver sp [] = []"
  "deliver sp ((g, m) # gms) = Elapse g # Message sp m # deliver sp gms"
  "deliver sp (gms @ gms') = deliver sp gms @ deliver sp gms'"
  by (simp_all add: deliver_def)

definition own_timer :: "speaker \<Rightarrow> world \<Rightarrow> bool" where
  "own_timer sp w = (\<forall>t \<in> set (timers w). completionTimer (chan sp w) = Some (tid t))"

definition armed :: "speaker \<Rightarrow> world \<Rightarrow> bool" where
  "armed sp w = (\<exists>h. timers w = [Timer h (clock w + COMPLETION_DEBOUNCE_MS) (FlushCompletion sp)]
     \<and> completionTimer (chan sp w) = Some h)"

definition merge_text :: "string \<Rightarrow> string \<Rightarrow> string" where
  "merge_text buf text = buf @ (if buf \<noteq> [] then '' '' else []) @ text"

lemma advance_none:
  "\<forall>x \<in> set (timers w). t < due x \<Longrightarrow> advance t w = w\<lparr>clock := max (clock w) t\<rparr>"
  by (subst advance.simps) (simp add: filter_False not_le [symmetric] del: not_le)

lemma completed_step:
  assumes "modelInfo w \<noteq> None" "\<not> is_gemini w" "own_timer sp w" "is_completed m"
  shows "armed sp (handleMessage sp m w)"
    and "completionBuffer (chan sp (handleMessage sp m w))
           = merge_text (completionBuffer (chan sp w)) (trim (message_text m))"
    and "currentUtterance (chan sp (handleMessage sp m w)) = []"
    and "final_events (trace (handleMessage sp m w)) = final_events (trace w)"
    and "clock (handleMessage sp m w) = clock w"
    and "modelInfo (handleMessage sp m w) = modelInfo w"
  using assms
  by (auto simp: handleMessage_def is_completed_def Let_def debounceCompletion_def setTimeout_def
      log_message_error_def armed_def own_timer_def merge_text_def filter_empty_conv
      split: option.splits)

lemma delta_step:
  assumes "modelInfo w \<noteq> None" "\<not> is_gemini w" "own_timer sp w" "is_delta m"
  shows "timers (handleMessage sp m w) = []"
    and "completionBuffer (chan sp (handleMessage sp m w)) = completionBuffer (chan sp w)"
    and "final_events (trace (handleMessage sp m w)) = final_events (trace w)"
    and "clock (handleMessage sp m w) = clock w"
    and "modelInfo (handleMessage sp m w) = modelInfo w"
  using assms
  by (auto simp: handleMessage_def is_delta_def Let_def
      log_message_error_def own_timer_def filter_empty_conv
      split: option.splits)


definition quiet :: "speaker \<Rightarrow> world \<Rightarrow> bool" where
  "quiet sp w = (timers w = [] \<or> armed sp w)"

lemma quiet_elapse:
  assumes "quiet sp w" "g < COMPLETION_DEBOUNCE_MS"
  shows "advance (clock w + g) w = w\<lparr>clock := clock w + g\<rparr>"
    and "own_timer sp (advance (clock w + g) w)"
  using assms by (auto simp: quiet_def armed_def advance_none own_timer_def)

lemma is_gemini_modelInfo: "modelInfo w' = modelInfo w \<Longrightarrow> is_gemini w' = is_gemini w"
  by (simp add: is_gemini_def)

lemma deliver_invariant:
  assumes "modelInfo w \<noteq> None" "\<not> is_gemini w" "quiet sp w"
    and "\<forall>(g, m) \<in> set gms. g < COMPLETION_DEBOUNCE_MS \<and> (is_delta m \<or> is_completed m)"
  shows "modelInfo (run (deliver sp gms) w) = modelInfo w
     \<and> quiet sp (run (deliver sp gms) w)
     \<and> completionBuffer (chan sp (run (deliver sp gms) w))
         = foldl merge_text (completionBuffer (chan sp w)) (completed_texts gms)
     \<and> final_events (trace (run (deliver sp gms) w)) = final_events (trace w)"
  using assms
proof (induction gms arbitrary: w)
  case Nil
  then show ?case by (simp add: completed_texts_def)
next
  case (Cons gm gms)
  obtain g m where gm: "gm = (g, m)" by (cases gm)
  from Cons.prems gm have g: "g < COMPLETION_DEBOUNCE_MS" and m: "is_delta m \<or> is_completed m"
    by auto
  let ?w1 = "advance (clock w + g) w"
  let ?w2 = "handleMessage sp m ?w1"
  have e: "?w1 = w\<lparr>clock := clock w + g\<rparr>" and own: "own_timer sp ?w1"
    using quiet_elapse [OF Cons.prems(3) g] by simp_all
  have mi1: "modelInfo ?w1 \<noteq> None" and ng1: "\<not> is_gemini ?w1"
    using Cons.prems(1,2) by (simp_all add: e)
  have step: "modelInfo ?w2 = modelInfo w \<and> quiet sp ?w2
      \<and> completionBuffer (chan sp ?w2)
          = foldl merge_text (completionBuffer (chan sp w)) (completed_texts [(g, m)])
      \<and> final_events (trace ?w2) = final_events (trace w)"
  proof (cases "is_completed m")
    case True
    from completed_step [OF mi1 ng1 own True] show ?thesis
      using True by (simp add: quiet_def completed_texts_def e)
  next
    case False
    with m have d: "is_delta m" by simp
    from delta_step [OF mi1 ng1 own d] show ?thesis
      using False by (simp add: quiet_def completed_texts_def e)
  qed
  then have mi2: "modelInfo ?w2 \<noteq> None" and ng2: "\<not> is_gemini ?w2" and q2: "quiet sp ?w2"
    using Cons.prems(1,2) by (simp_all add: is_gemini_def)
  have rest: "\<forall>(g, m) \<in> set gms. g < COMPLETION_DEBOUNCE_MS \<and> (is_delta m \<or> is_completed m)"
    using Cons.prems(4) by simp
  have ct: "completed_texts ((g, m) # gms) = completed_texts [(g, m)] @ completed_texts gms"
    by (simp add: completed_texts_def)
  from Cons.IH [OF mi2 ng2 q2 rest] step show ?case
    by (simp add: gm ct)
qed

lemma merge_text_join:
  assumes "\<forall>x \<in> set xs. x \<noteq> []" "b \<noteq> []"
  shows "foldl merge_text b xs = space_join (b # xs)"
  using assms
proof (induction xs arbitrary: b rule: rev_induct)
  case Nil
  then show ?case by simp
next
  case (snoc x xs)
  have j: "space_join (ys @ [x]) = space_join ys @ '' '' @ x" if "ys \<noteq> []" for ys
    using that by (induction ys rule: space_join.induct) simp_all
  have ne: "space_join (b # xs) \<noteq> []"
    using snoc.prems(2) by (cases xs) simp_all
  have "foldl merge_text b (xs @ [x]) = merge_text (space_join (b # xs)) x"
    using snoc by simp
  also have "\<dots> = space_join ((b # xs) @ [x])"
    using ne j [of "b # xs"] by (simp add: merge_text_def)
  finally show ?case by simp
qed

lemma foldl_merge_text_Nil:
  assumes "\<forall>x \<in> set xs. x \<noteq> []"
  shows "foldl merge_text [] xs = space_join xs"
proof (cases xs)
  case Nil
  then show ?thesis by simp
next
  case (Cons x xs')
  then have "foldl merge_text [] xs = foldl merge_text x xs'"
    by (simp add: merge_text_def)
  with Cons assms show ?thesis
    by (simp add: merge_text_join)
qed

lemma space_join_ends:
  assumes "xs \<noteq> []" "\<forall>x \<in> set xs. x \<noteq> [] \<and> \<not> is_space (hd x) \<and> \<not> is_space (last x)"
  shows "space_join xs \<noteq> [] \<and> \<not> is_space (hd (space_join xs)) \<and> \<not> is_space (last (space_join xs))"
  using assms by (induction xs rule: space_join.induct) auto


lemma completed_texts_trimmed:
  "\<forall>x \<in> set (completed_texts gms). x \<noteq> [] \<and> \<not> is_space (hd x) \<and> \<not> is_space (last x)"
  by (auto simp: completed_texts_def is_completed_def trim_ends)

lemma armed_fires:
  assumes "armed sp w" "modelInfo w \<noteq> None" "COMPLETION_DEBOUNCE_MS \<le> T"
    and "trim (completionBuffer (chan sp w) @ currentUtterance (chan sp w)) \<noteq> []"
  shows "final_events (trace (advance (clock w + T) w))
       = final_events (trace w)
         @ [(sp, trim (completionBuffer (chan sp w) @ currentUtterance (chan sp w)),
             clock w + COMPLETION_DEBOUNCE_MS)]"
    and "timers (advance (clock w + T) w) = []"
proof -
  from assms(1) obtain h where
    t: "timers w = [Timer h (clock w + COMPLETION_DEBOUNCE_MS) (FlushCompletion sp)]"
    by (auto simp: armed_def)
  let ?x = "Timer h (clock w + COMPLETION_DEBOUNCE_MS) (FlushCompletion sp)"
  have 1: "advance (clock w + T) w = advance (clock w + T) (fire ?x w)"
    using assms(3) by (subst advance.simps) (simp add: t)
  have 2: "timers (fire ?x w) = []"
    by (simp add: fire_def t)
  have 3: "advance (clock w + T) (fire ?x w) = (fire ?x w)\<lparr>clock := max (clock (fire ?x w)) (clock w + T)\<rparr>"
    by (rule advance_none) (simp add: 2)
  have 4: "final_events (trace (fire ?x w)) = final_events (trace w)
         @ [(sp, trim (completionBuffer (chan sp w) @ currentUtterance (chan sp w)),
             clock w + COMPLETION_DEBOUNCE_MS)]"
    using assms(2,4) by (simp add: fire_def run_callback_def flushCompletion_def Let_def)
  show "final_events (trace (advance (clock w + T) w))
       = final_events (trace w)
         @ [(sp, trim (completionBuffer (chan sp w) @ currentUtterance (chan sp w)),
             clock w + COMPLETION_DEBOUNCE_MS)]"
    by (simp add: 1 3 4)
  show "timers (advance (clock w + T) w) = []"
    by (simp add: 1 3 2)
qed

text \<open>
  Claim C1, as amended. Let the provider be none of gemini, the channel start with an empty
  completion buffer and no timer queued, and the messages be delta messages and completed
  messages that are non-empty after trimming, the last one a completed message, delivered with
  gaps shorter than the 2000 ms debounce interval. Then no final event is emitted while less
  than 2000 ms have passed since the last message; the last completed message leaves exactly
  one timer queued, due 2000 ms after it; and once 2000 ms have passed exactly one final event
  has been emitted, at that due time, whose text is the space-joined concatenation of the
  trimmed texts of the completed messages.
\<close>

theorem completed_fragments_debounced:
  assumes "modelInfo w \<noteq> None" and "\<not> is_gemini w"
    and "timers w = []" and "completionBuffer (chan sp w) = []"
    and "\<forall>(g, m) \<in> set gms. g < COMPLETION_DEBOUNCE_MS \<and> (is_delta m \<or> is_completed m)"
    and "g < COMPLETION_DEBOUNCE_MS" and "is_completed m"
    and "T < COMPLETION_DEBOUNCE_MS" and "COMPLETION_DEBOUNCE_MS \<le> T'"
  shows "final_events (trace (run (deliver sp (gms @ [(g, m)]) @ [Elapse T]) w)) = final_events (trace w)
     \<and> map due (timers (run (deliver sp (gms @ [(g, m)])) w))
         = [clock (run (deliver sp (gms @ [(g, m)])) w) + COMPLETION_DEBOUNCE_MS]
     \<and> final_events (trace (run (deliver sp (gms @ [(g, m)]) @ [Elapse T']) w))
         = final_events (trace w)
           @ [(sp, space_join (completed_texts (gms @ [(g, m)])),
               clock (run (deliver sp (gms @ [(g, m)])) w) + COMPLETION_DEBOUNCE_MS)]"
proof -
  let ?w1 = "run (deliver sp gms) w"
  let ?w2 = "advance (clock ?w1 + g) ?w1"
  let ?w3 = "handleMessage sp m ?w2"
  have q0: "quiet sp w" using assms(3) by (simp add: quiet_def)
  from deliver_invariant [OF assms(1,2) q0 assms(5)]
  have mi1: "modelInfo ?w1 = modelInfo w" and q1: "quiet sp ?w1"
    and b1: "completionBuffer (chan sp ?w1) = foldl merge_text [] (completed_texts gms)"
    and f1: "final_events (trace ?w1) = final_events (trace w)"
    by (simp_all add: assms(4))
  have e: "?w2 = ?w1\<lparr>clock := clock ?w1 + g\<rparr>" and own: "own_timer sp ?w2"
    using quiet_elapse [OF q1 assms(6)] by simp_all
  have mi2: "modelInfo ?w2 \<noteq> None" and ng2: "\<not> is_gemini ?w2"
    using assms(1,2) mi1 by (simp_all add: e is_gemini_def)
  have b2: "completionBuffer (chan sp ?w2) = foldl merge_text [] (completed_texts gms)"
    and f2: "final_events (trace ?w2) = final_events (trace w)"
    by (simp_all add: e b1 f1)
  note c = completed_step [OF mi2 ng2 own assms(7)]
  have w3: "run (deliver sp (gms @ [(g, m)])) w = ?w3"
    by (simp add: run_append)
  have texts: "completed_texts (gms @ [(g, m)]) = completed_texts gms @ [trim (message_text m)]"
    using assms(7) by (simp add: completed_texts_def)
  have b3: "completionBuffer (chan sp ?w3) = space_join (completed_texts (gms @ [(g, m)]))"
    using completed_texts_trimmed [of "gms @ [(g, m)]"]
    by (simp add: c(2) b2 texts foldl_merge_text_Nil [symmetric])
  have ends: "space_join (completed_texts (gms @ [(g, m)])) \<noteq> []
     \<and> \<not> is_space (hd (space_join (completed_texts (gms @ [(g, m)]))))
     \<and> \<not> is_space (last (space_join (completed_texts (gms @ [(g, m)]))))"
    by (rule space_join_ends [OF _ completed_texts_trimmed]) (simp add: texts)
  have final: "trim (completionBuffer (chan sp ?w3) @ currentUtterance (chan sp ?w3))
      = space_join (completed_texts (gms @ [(g, m)]))"
    using ends by (simp add: c(3) b3 trim_id)
  have f3: "final_events (trace ?w3) = final_events (trace w)"
    by (simp add: c(4) f2)
  have mi3: "modelInfo ?w3 \<noteq> None"
    using mi2 by (simp add: c(6))
  have early: "advance (clock ?w3 + T) ?w3 = ?w3\<lparr>clock := clock ?w3 + T\<rparr>"
    using quiet_elapse(1) [of sp ?w3 T] c(1) assms(8) by (simp add: quiet_def)
  have due3: "map due (timers ?w3) = [clock ?w3 + COMPLETION_DEBOUNCE_MS]"
    using c(1) by (auto simp: armed_def)
  have late: "final_events (trace (advance (clock ?w3 + T') ?w3))
       = final_events (trace w)
         @ [(sp, space_join (completed_texts (gms @ [(g, m)])), clock ?w3 + COMPLETION_DEBOUNCE_MS)]"
    using armed_fires(1) [OF c(1) mi3 assms(9)] ends by (simp add: final f3)
  show ?thesis
    unfolding run_append w3 using early due3 late f3 by simp
qed

theorem completed_fragments_debounced_witness:
  "final_events (trace (run (deliver Me ([(0, delta_message ''hel''), (100, completed_message ''hello '')]
        @ [(1500, completed_message '' world'')]) @ [Elapse 1999]) (started ''openai'' realtime_session))) = []
   \<and> final_events (trace (run (deliver Me ([(0, delta_message ''hel''), (100, completed_message ''hello '')]
        @ [(1500, completed_message '' world'')]) @ [Elapse 2000]) (started ''openai'' realtime_session)))
       = [(Me, ''hello world'', 3600)]"
proof -
  let ?w = "started ''openai'' realtime_session"
  let ?gms = "[(0, delta_message ''hel''), (100, completed_message ''hello '')]"
  have h: "modelInfo ?w \<noteq> None" "\<not> is_gemini ?w" "timers ?w = []" "completionBuffer (chan Me ?w) = []"
    "\<forall>(g, m) \<in> set ?gms. g < COMPLETION_DEBOUNCE_MS \<and> (is_delta m \<or> is_completed m)"
    "1500 < COMPLETION_DEBOUNCE_MS" "is_completed (completed_message '' world'')"
    "1999 < COMPLETION_DEBOUNCE_MS" "COMPLETION_DEBOUNCE_MS \<le> 2000"
    by code_simp+
  have v: "final_events (trace ?w) = []"
    "space_join (completed_texts (?gms @ [(1500, completed_message '' world'')])) = ''hello world''"
    "clock (run (deliver Me (?gms @ [(1500, completed_message '' world'')])) ?w) + COMPLETION_DEBOUNCE_MS = 3600"
    by code_simp+
  from completed_fragments_debounced [OF h] show ?thesis
    by (simp only: v append_Nil)
qed

text \<open>
  Claim C1 as stated fails on delta fragments: a delta message cancels the queued timer and
  arms none, so that no final event follows however long the channel stays quiet.
\<close>

theorem delta_cancels_without_rearming:
  "final_events (trace (run [Message Me (completed_message ''hello''), Elapse 500,
       Message Me (delta_message ''wor''), Elapse 5000] (started ''openai'' realtime_session))) = []
   \<and> timers (run [Message Me (completed_message ''hello''), Elapse 500,
       Message Me (delta_message ''wor'')] (started ''openai'' realtime_session)) = []"
  by code_simp

definition is_fragment :: "message \<Rightarrow> bool" where
  "is_fragment m = (\<not> turnComplete m \<and> trim (inputTranscription m) \<noteq> []
     \<and> trim (inputTranscription m) \<noteq> ''<noise>'')"

definition fragment_texts :: "(nat \<times> message) list \<Rightarrow> string list" where
  "fragment_texts gms = map (\<lambda>(g, m). inputTranscription m) gms"

lemma trim_eq_Nil_iff: "trim s = [] \<longleftrightarrow> (\<forall>c \<in> set s. is_space c)"
proof
  assume "trim s = []"
  then have "\<forall>c \<in> set (rev (dropWhile is_space s)). is_space c"
    by (simp add: trim_def dropWhile_eq_Nil_conv)
  then have "dropWhile is_space s = []"
    by (metis dropWhile_eq_Nil_conv hd_dropWhile hd_in_set set_rev)
  then show "\<forall>c \<in> set s. is_space c"
    by (simp add: dropWhile_eq_Nil_conv)
next
  assume "\<forall>c \<in> set s. is_space c"
  then have "dropWhile is_space s = []"
    by (simp add: dropWhile_eq_Nil_conv)
  then show "trim s = []"
    unfolding trim_def by (simp only: rev.simps dropWhile.simps)
qed

lemma fragment_step:
  assumes "is_gemini w" "own_timer sp w" "is_fragment m"
  shows "armed sp (handleMessage sp m w)"
    and "completionBuffer (chan sp (handleMessage sp m w))
           = completionBuffer (chan sp w) @ inputTranscription m"
    and "currentUtterance (chan sp (handleMessage sp m w)) = currentUtterance (chan sp w)"
    and "final_events (trace (handleMessage sp m w)) = final_events (trace w)"
    and "clock (handleMessage sp m w) = clock w"
    and "modelInfo (handleMessage sp m w) = modelInfo w"
  using assms
  by (auto simp: handleMessage_def is_fragment_def Let_def debounceCompletion_def setTimeout_def
      log_message_error_def armed_def own_timer_def filter_empty_conv is_gemini_def
      split: option.splits)

lemma fragments_invariant:
  assumes "is_gemini w" "quiet sp w"
    and "\<forall>(g, m) \<in> set gms. g < COMPLETION_DEBOUNCE_MS \<and> is_fragment m"
  shows "modelInfo (run (deliver sp gms) w) = modelInfo w
     \<and> (if gms = [] then quiet sp (run (deliver sp gms) w) else armed sp (run (deliver sp gms) w))
     \<and> completionBuffer (chan sp (run (deliver sp gms) w))
         = completionBuffer (chan sp w) @ concat (fragment_texts gms)
     \<and> currentUtterance (chan sp (run (deliver sp gms) w)) = currentUtterance (chan sp w)
     \<and> final_events (trace (run (deliver sp gms) w)) = final_events (trace w)"
  using assms
proof (induction gms arbitrary: w)
  case Nil
  then show ?case by (simp add: fragment_texts_def)
next
  case (Cons gm gms)
  obtain g m where gm: "gm = (g, m)" by (cases gm)
  from Cons.prems gm have g: "g < COMPLETION_DEBOUNCE_MS" and m: "is_fragment m"
    by auto
  let ?w1 = "advance (clock w + g) w"
  let ?w2 = "handleMessage sp m ?w1"
  have e: "?w1 = w\<lparr>clock := clock w + g\<rparr>" and own: "own_timer sp ?w1"
    using quiet_elapse [OF Cons.prems(2) g] by simp_all
  have g1: "is_gemini ?w1" and b1: "completionBuffer (chan sp ?w1) = completionBuffer (chan sp w)"
    and u1: "currentUtterance (chan sp ?w1) = currentUtterance (chan sp w)"
    and f1: "final_events (trace ?w1) = final_events (trace w)"
    and mi1: "modelInfo ?w1 = modelInfo w"
    using Cons.prems(1) by (simp_all add: e)
  note c = fragment_step [OF g1 own m]
  have g2: "is_gemini ?w2" and q2: "quiet sp ?w2"
    using c(1) g1 by (simp_all add: is_gemini_def c(6) quiet_def)
  have rest: "\<forall>(g, m) \<in> set gms. g < COMPLETION_DEBOUNCE_MS \<and> is_fragment m"
    using Cons.prems(3) by simp
  have ft: "fragment_texts ((g, m) # gms) = inputTranscription m # fragment_texts gms"
    by (simp add: fragment_texts_def)
  have a: "armed sp (run (deliver sp gms) ?w2)"
    using Cons.IH [OF g2 q2 rest] c(1) by (cases "gms = []") simp_all
  from Cons.IH [OF g2 q2 rest] a show ?case
    by (simp add: gm ft c(2,3,4,6) b1 u1 f1 mi1)
qed

lemma marker_step:
  assumes "is_gemini w" "timers w = [Timer h d cb]" "completionTimer (chan sp w) = Some h"
    and "turnComplete mk"
    and "trim (completionBuffer (chan sp w) @ currentUtterance (chan sp w)) \<noteq> []"
  shows "final_events (trace (handleMessage sp mk w)) = final_events (trace w)
      @ [(sp, trim (completionBuffer (chan sp w) @ currentUtterance (chan sp w)), clock w)]"
    and "timers (handleMessage sp mk w) = []"
    and "completionTimer (chan sp (handleMessage sp mk w)) = None"
    and "completionBuffer (chan sp (handleMessage sp mk w)) = []"
  using assms
  by (auto simp: handleMessage_def flushCompletion_def Let_def is_gemini_def split: option.splits)

text \<open>
  Claim C3, as amended. Let the provider be gemini, the channel start with empty buffers and
  no timer queued, and a non-empty sequence of transcription fragments (not blank, not the
  noise sentinel) be delivered with gaps shorter than the debounce interval, followed within
  that interval by a turn-complete marker. Then no final event is emitted before the marker;
  on receipt of the marker exactly one final event is emitted, stamped with the time of
  receipt, whose text is the trimmed concatenation of the fragments with nothing inserted
  between them; the queued timer is cancelled and the handle cleared; and no further final
  event follows, however much time passes.
\<close>

theorem turn_complete_flushes:
  assumes "is_gemini w" and "timers w = []"
    and "completionBuffer (chan sp w) = []" and "currentUtterance (chan sp w) = []"
    and "gms \<noteq> []"
    and "\<forall>(g, m) \<in> set gms. g < COMPLETION_DEBOUNCE_MS \<and> is_fragment m"
    and "g < COMPLETION_DEBOUNCE_MS" and "turnComplete mk"
  shows "final_events (trace (run (deliver sp gms @ [Elapse g]) w)) = final_events (trace w)
     \<and> final_events (trace (run (deliver sp gms @ [Elapse g, Message sp mk]) w))
         = final_events (trace w)
           @ [(sp, trim (concat (fragment_texts gms)), clock (run (deliver sp gms @ [Elapse g]) w))]
     \<and> timers (run (deliver sp gms @ [Elapse g, Message sp mk]) w) = []
     \<and> completionTimer (chan sp (run (deliver sp gms @ [Elapse g, Message sp mk]) w)) = None
     \<and> final_events (trace (run (deliver sp gms @ [Elapse g, Message sp mk, Elapse T]) w))
         = final_events (trace (run (deliver sp gms @ [Elapse g, Message sp mk]) w))"
proof -
  let ?w1 = "run (deliver sp gms) w"
  let ?w2 = "advance (clock ?w1 + g) ?w1"
  let ?w3 = "handleMessage sp mk ?w2"
  have q0: "quiet sp w" using assms(2) by (simp add: quiet_def)
  from fragments_invariant [OF assms(1) q0 assms(6)] assms(5)
  have mi1: "modelInfo ?w1 = modelInfo w" and a1: "armed sp ?w1"
    and b1: "completionBuffer (chan sp ?w1) = concat (fragment_texts gms)"
    and u1: "currentUtterance (chan sp ?w1) = []"
    and f1: "final_events (trace ?w1) = final_events (trace w)"
    by (simp_all add: assms(3,4))
  have q1: "quiet sp ?w1" using a1 by (simp add: quiet_def)
  have e: "?w2 = ?w1\<lparr>clock := clock ?w1 + g\<rparr>"
    using quiet_elapse(1) [OF q1 assms(7)] .
  from a1 obtain h where t1: "timers ?w1 = [Timer h (clock ?w1 + COMPLETION_DEBOUNCE_MS) (FlushCompletion sp)]"
    and h1: "completionTimer (chan sp ?w1) = Some h"
    by (auto simp: armed_def)
  have g2: "is_gemini ?w2" using assms(1) mi1 by (simp add: e is_gemini_def)
  have t2: "timers ?w2 = [Timer h (clock ?w1 + COMPLETION_DEBOUNCE_MS) (FlushCompletion sp)]"
    and h2: "completionTimer (chan sp ?w2) = Some h"
    and b2: "completionBuffer (chan sp ?w2) = concat (fragment_texts gms)"
    and u2: "currentUtterance (chan sp ?w2) = []"
    and f2: "final_events (trace ?w2) = final_events (trace w)"
    by (simp_all add: e t1 h1 b1 u1 f1)
  obtain g0 m0 where "(g0, m0) \<in> set gms" using assms(5) by (cases gms) auto
  then have "is_fragment m0" and "inputTranscription m0 \<in> set (fragment_texts gms)"
    using assms(6) by (auto simp: fragment_texts_def)
  then have ne: "trim (concat (fragment_texts gms)) \<noteq> []"
    by (auto simp: trim_eq_Nil_iff is_fragment_def)
  have ne2: "trim (completionBuffer (chan sp ?w2) @ currentUtterance (chan sp ?w2)) \<noteq> []"
    using ne by (simp add: b2 u2)
  note k = marker_step [OF g2 t2 h2 assms(8) ne2]
  have late: "advance (clock ?w3 + T) ?w3 = ?w3\<lparr>clock := max (clock ?w3) (clock ?w3 + T)\<rparr>"
    by (rule advance_none) (simp add: k(2))
  have r2: "run (deliver sp gms @ [Elapse g]) w = ?w2"
    and r3: "run (deliver sp gms @ [Elapse g, Message sp mk]) w = ?w3"
    and r4: "run (deliver sp gms @ [Elapse g, Message sp mk, Elapse T]) w = advance (clock ?w3 + T) ?w3"
    by (simp_all add: run_append)
  show ?thesis
    unfolding r2 r3 r4 using f2 k late by (simp add: b2 u2)
qed

theorem turn_complete_flushes_witness:
  "final_events (trace (run (deliver Me [(0, transcription_message ''Hel''), (300, transcription_message ''lo '')]
       @ [Elapse 100, Message Me turn_complete_message]) (started ''gemini'' realtime_session)))
     = [(Me, ''Hello'', 400)]
   \<and> timers (run (deliver Me [(0, transcription_message ''Hel''), (300, transcription_message ''lo '')]
       @ [Elapse 100, Message Me turn_complete_message]) (started ''gemini'' realtime_session)) = []"
proof -
  let ?w = "started ''gemini'' realtime_session"
  let ?gms = "[(0, transcription_message ''Hel''), (300, transcription_message ''lo '')]"
  have h: "is_gemini ?w" "timers ?w = []" "completionBuffer (chan Me ?w) = []"
    "currentUtterance (chan Me ?w) = []" "?gms \<noteq> []"
    "\<forall>(g, m) \<in> set ?gms. g < COMPLETION_DEBOUNCE_MS \<and> is_fragment m"
    "100 < COMPLETION_DEBOUNCE_MS" "turnComplete turn_complete_message"
    by code_simp+
  have v: "final_events (trace ?w) = []"
    "trim (concat (fragment_texts ?gms)) = ''Hello''"
    "clock (run (deliver Me ?gms @ [Elapse 100]) ?w) = 400"
    by code_simp+
  from turn_complete_flushes [OF h, of 0] show ?thesis
    by (simp only: v append_Nil)
qed

text \<open>
  Claim C3 as stated (for every sequence) fails when a gap reaches the debounce interval: the
  timer flushes first. With such a gap between two fragments, two final events are emitted,
  neither holding the concatenation; with such a gap before the marker, the one final event
  is emitted by the timer, at its due time, and the marker, finding the handle cleared, emits
  nothing.
\<close>

theorem slow_fragments_flushed_by_timer:
  "final_events (trace (run [Message Me (transcription_message ''a''), Elapse 3000,
       Message Me (transcription_message ''b''), Elapse 100, Message Me turn_complete_message]
       (started ''gemini'' realtime_session)))
     = [(Me, ''a'', 2000), (Me, ''b'', 3100)]
   \<and> final_events (trace (run [Message Me (transcription_message ''a''), Elapse 2500]
       (started ''gemini'' realtime_session)))
     = [(Me, ''a'', 2000)]
   \<and> final_events (trace (run [Message Me (transcription_message ''a''), Elapse 2500,
       Message Me turn_complete_message] (started ''gemini'' realtime_session)))
     = [(Me, ''a'', 2000)]"
  by code_simp

text \<open>
  Claim C10. On the batch path the non-emptiness check reads the raw result text, the
  stripping comes after it: for every result text that is non-empty after trimming and that
  the stripping of bracketed and parenthesised annotations leaves blank, the continuation
  still emits one final event, and its text is the empty string. \<open>[music]\<close> is such a text.
\<close>

theorem annotation_only_result_emits_empty_final:
  assumes "trim text \<noteq> []" and "cleanText text = []"
  shows "final_events (trace (transcribeAudio_resolved sp text w))
       = final_events (trace w) @ [(sp, [], clock w)]"
  using assms by (auto simp: transcribeAudio_resolved_def Let_def)

theorem annotation_only_result_emits_empty_final_witness:
  "trim ''[music]'' \<noteq> [] \<and> cleanText ''[music]'' = []
   \<and> final_events (trace (transcribeAudio_resolved Me ''[music]'' constructor)) = [(Me, [], 0)]
   \<and> final_events (trace (transcribeAudio_resolved Them ''(applause) [music]'' constructor)) = [(Them, [], 0)]"
proof -
  have a: "trim ''[music]'' \<noteq> []" "cleanText ''[music]'' = []"
    and b: "trim ''(applause) [music]'' \<noteq> []" "cleanText ''(applause) [music]'' = []"
    and c: "final_events (trace constructor) = []" "clock constructor = 0"
    by code_simp+
  from annotation_only_result_emits_empty_final [OF a, of Me constructor]
    annotation_only_result_emits_empty_final [OF b, of Them constructor]
  show ?thesis by (simp only: a c append_Nil simp_thms)
qed

section \<open>The batch window\<close>

lemma fire_SendBufferedAudio:
  "fire (Timer h d (SendBufferedAudio sp)) w =
     sendBufferedAudio sp (w\<lparr>timers := filter (\<lambda>y. tid y \<noteq> h) (timers w), clock := max (clock w) d\<rparr>)"
  by (simp add: fire_def run_callback_def)

lemma sendBufferedAudio_submits:
  assumes "sttSession (chan sp w) = Some s" "has_transcribeAudio s"
    and "concat (audioBuffer (chan sp w)) \<noteq> []"
    and "36 + length (concat (audioBuffer (chan sp w))) \<le> 4294967295"
  shows "sendBufferedAudio sp w =
     emit [TranscribeAudio sp (wav_header (length (concat (audioBuffer (chan sp w))))
                                @ concat (audioBuffer (chan sp w)))]
       (upd_chan sp (\<lambda>c. c\<lparr>audioBuffer := [], audioTimer := None\<rparr>) w)"
  using assms
  by (simp add: sendBufferedAudio_def Let_def pcmToWav_mono16 del: length_concat concat_eq_Nil_conv)

lemma sendBufferedAudio_clears:
  "audioBuffer (chan sp (sendBufferedAudio sp w)) = []"
  "audioTimer (chan sp (sendBufferedAudio sp w)) = None"
  "final_events (trace (sendBufferedAudio sp w)) = final_events (trace w)"
  by (simp_all add: sendBufferedAudio_def Let_def split: sum.splits option.splits)

text \<open>
  Claim C8. Let a window of a batch channel expire whose audio is submitted (the session has
  \<open>transcribeAudio\<close>, the buffered audio is non-empty and fits a WAV file), and let the
  submission fail. At expiry the pending buffer and the timer handle are cleared and one
  submission is made; the failure adds one \<open>console.error\<close> to the trace and changes nothing
  else: no transcript event, no second submission, no timer, the audio not put back. Audio
  that arrives afterwards is alone in the buffer and arms a new timer, due a full window
  after its arrival. And however the closure ends, also when the encoding or the call itself
  raises inside its \<open>try\<close>, it leaves the buffer empty and the handle cleared and emits no
  final event.
\<close>

theorem failed_submission_leaves_clean_state:
  assumes "sttSession (chan sp w) = Some s" and "has_transcribeAudio s"
    and "modelInfo w = Some mi" and "provider mi = ''gaia''"
    and "concat (audioBuffer (chan sp w)) \<noteq> []"
    and "36 + length (concat (audioBuffer (chan sp w))) \<le> 4294967295"
    and "w1 = fire (Timer h d (SendBufferedAudio sp)) w"
    and "w2 = transcribeAudio_rejected sp w1"
  shows "audioBuffer (chan sp w1) = [] \<and> audioTimer (chan sp w1) = None
     \<and> trace w1 = trace w @ [TranscribeAudio sp (wav_header (length (concat (audioBuffer (chan sp w))))
                                                  @ concat (audioBuffer (chan sp w)))]
     \<and> trace w2 = trace w1 @ [ConsoleError (buffered_audio_error sp)]
     \<and> my w2 = my w1 \<and> their w2 = their w1 \<and> timers w2 = timers w1
     \<and> (\<exists>w3. sendAudio sp fetched data mimeType w2 = Inr w3
          \<and> audioBuffer (chan sp w3) = [to_buffer data]
          \<and> audioTimer (chan sp w3) = Some (nextTimer w2)
          \<and> timers w3 = timers w2 @ [Timer (nextTimer w2) (clock w2 + AUDIO_SEND_INTERVAL)
                                          (SendBufferedAudio sp)]
          \<and> trace w3 = trace w2)
     \<and> audioBuffer (chan sp (sendBufferedAudio sp w')) = []
     \<and> audioTimer (chan sp (sendBufferedAudio sp w')) = None
     \<and> final_events (trace (sendBufferedAudio sp w')) = final_events (trace w')"
proof -
  let ?w0 = "w\<lparr>timers := filter (\<lambda>y. tid y \<noteq> h) (timers w), clock := max (clock w) d\<rparr>"
  have w1: "w1 = emit [TranscribeAudio sp (wav_header (length (concat (audioBuffer (chan sp w))))
                          @ concat (audioBuffer (chan sp w)))]
       (upd_chan sp (\<lambda>c. c\<lparr>audioBuffer := [], audioTimer := None\<rparr>) ?w0)"
    unfolding assms(7) fire_SendBufferedAudio
    using sendBufferedAudio_submits [of sp ?w0 s] assms(1,2,5,6) by simp
  have w2: "w2 = emit [ConsoleError (buffered_audio_error sp)] w1"
    by (simp add: assms(8) transcribeAudio_rejected_def)
  have s2: "sttSession (chan sp w2) = Some s" and m2: "selected_model fetched w2 = Some mi"
    and a2: "audioTimer (chan sp w2) = None" and b2: "audioBuffer (chan sp w2) = []"
    using assms(1,3) by (simp_all add: w1 w2 selected_model_def)
  have "my (emit es w') = my w'" "their (emit es w') = their w'" for es w'
    by (simp_all add: emit_def)
  then have frame: "my w2 = my w1" "their w2 = their w1" "timers w2 = timers w1"
    by (simp_all add: w2)
  show ?thesis
    unfolding sendAudio_gaia [OF s2 m2 assms(4)]
    using frame by (simp add: a2 b2 sendBufferedAudio_clears) (simp add: w1 w2)
qed


definition one_window :: world where
  "one_window = run [Audio Me None (BufferData [1, 2, 3, 4]) []] (started ''gaia'' gaia_session)"

theorem failed_submission_leaves_clean_state_witness:
  "audioBuffer (my (fire (Timer 1 5000 (SendBufferedAudio Me)) one_window)) = []
   \<and> audioTimer (my (fire (Timer 1 5000 (SendBufferedAudio Me)) one_window)) = None
   \<and> trace (transcribeAudio_rejected Me (fire (Timer 1 5000 (SendBufferedAudio Me)) one_window))
       = [TranscribeAudio Me (wav_header 4 @ [1, 2, 3, 4]), ConsoleError ''Error sending buffered audio:'']
   \<and> timers (transcribeAudio_rejected Me (fire (Timer 1 5000 (SendBufferedAudio Me)) one_window)) = []"
proof -
  have h: "sttSession (chan Me one_window) = Some gaia_session" "has_transcribeAudio gaia_session"
    "modelInfo one_window = Some \<lparr>provider = ''gaia'', apiKey = ''key''\<rparr>"
    "provider \<lparr>provider = ''gaia'', apiKey = ''key''\<rparr> = ''gaia''"
    "concat (audioBuffer (chan Me one_window)) \<noteq> []"
    by code_simp+
  have v: "concat (audioBuffer (chan Me one_window)) = [1, 2, 3, 4]" "trace one_window = []"
    "timers one_window = [Timer 1 5000 (SendBufferedAudio Me)]"
    "buffered_audio_error Me = ''Error sending buffered audio:''"
    by code_simp+
  have f: "timers (fire (Timer 1 5000 (SendBufferedAudio Me)) one_window) = []"
    by (simp add: fire_def v)
  let ?w1 = "fire (Timer 1 5000 (SendBufferedAudio Me)) one_window"
  let ?w2 = "transcribeAudio_rejected Me ?w1"
  have h6: "36 + length (concat (audioBuffer (chan Me one_window))) \<le> 4294967295"
    by (simp only: v) simp
  note t = failed_submission_leaves_clean_state [OF h h6 refl refl, of 1 5000 None "BufferData []" "[]"]
  from t have a: "audioBuffer (chan Me ?w1) = []" and b: "audioTimer (chan Me ?w1) = None"
    and c: "trace ?w1 = trace one_window @ [TranscribeAudio Me (wav_header
              (length (concat (audioBuffer (chan Me one_window)))) @ concat (audioBuffer (chan Me one_window)))]"
    and d: "trace ?w2 = trace ?w1 @ [ConsoleError (buffered_audio_error Me)]"
    and g: "timers ?w2 = timers ?w1"
    by blast+
  have l: "length [1::byte, 2, 3, 4] = 4" by simp
  have m: "concat (audioBuffer (my one_window)) = [1, 2, 3, 4]" by code_simp
  show ?thesis
    using a b by (simp only: d c g f v m l chan.simps append_Nil append_Cons simp_thms)
qed

text \<open>
  Audio arrivals on one channel, each with the gap in milliseconds since the event before it;
  \<open>fetched\<close> and \<open>mimeType\<close> are the same for all.
\<close>

definition arrivals ::
  "speaker \<Rightarrow> model_info option \<Rightarrow> string \<Rightarrow> (nat \<times> audio_data) list \<Rightarrow> event list" where
  "arrivals sp fetched mimeType gds = concat (map (\<lambda>(g, d). [Elapse g, Audio sp fetched d mimeType]) gds)"

lemma arrivals_simps [simp]:
  "arrivals sp fetched mimeType [] = []"
  "arrivals sp fetched mimeType ((g, d) # gds)
     = Elapse g # Audio sp fetched d mimeType # arrivals sp fetched mimeType gds"
  by (simp_all add: arrivals_def)

definition window_open :: "speaker \<Rightarrow> nat \<Rightarrow> buffer list \<Rightarrow> world \<Rightarrow> bool" where
  "window_open sp expiry bufs w \<longleftrightarrow>
     (\<exists>h. timers w = [Timer h expiry (SendBufferedAudio sp)] \<and> audioTimer (chan sp w) = Some h)
     \<and> audioBuffer (chan sp w) = bufs \<and> clock w < expiry"

lemma window_arrival:
  assumes "sttSession (chan sp w) = Some s" "modelInfo w = Some mi" "provider mi = ''gaia''"
    and "window_open sp expiry bufs w" "clock w + g < expiry"
  shows "window_open sp expiry (bufs @ [to_buffer d]) (run [Elapse g, Audio sp fetched d mimeType] w)"
    and "sttSession (chan sp (run [Elapse g, Audio sp fetched d mimeType] w)) = Some s"
    and "modelInfo (run [Elapse g, Audio sp fetched d mimeType] w) = Some mi"
    and "trace (run [Elapse g, Audio sp fetched d mimeType] w) = trace w"
    and "clock (run [Elapse g, Audio sp fetched d mimeType] w) = clock w + g"
proof -
  let ?w1 = "advance (clock w + g) w"
  have e: "?w1 = w\<lparr>clock := clock w + g\<rparr>"
    using assms(4,5) by (subst advance_none) (auto simp: window_open_def)
  have s1: "sttSession (chan sp ?w1) = Some s" and m1: "selected_model fetched ?w1 = Some mi"
    using assms(1,2) by (simp_all add: e selected_model_def)
  have a1: "audioTimer (chan sp ?w1) \<noteq> None"
    using assms(4) by (auto simp: e window_open_def)
  note sa = sendAudio_gaia [OF s1 m1 assms(3), of d mimeType]
  show "window_open sp expiry (bufs @ [to_buffer d]) (run [Elapse g, Audio sp fetched d mimeType] w)"
    using assms(4,5) a1 by (simp add: sa) (auto simp: e window_open_def)
  show "sttSession (chan sp (run [Elapse g, Audio sp fetched d mimeType] w)) = Some s"
    using a1 assms(1) by (simp add: sa) (simp add: e)
  show "modelInfo (run [Elapse g, Audio sp fetched d mimeType] w) = Some mi"
    using a1 assms(2) by (simp add: sa) (simp add: e)
  show "trace (run [Elapse g, Audio sp fetched d mimeType] w) = trace w"
    using a1 by (simp add: sa) (simp add: e)
  show "clock (run [Elapse g, Audio sp fetched d mimeType] w) = clock w + g"
    using a1 by (simp add: sa) (simp add: e)
qed

lemma window_arrivals:
  assumes "sttSession (chan sp w) = Some s" "modelInfo w = Some mi" "provider mi = ''gaia''"
    and "window_open sp expiry bufs w" "clock w + sum_list (map fst gds) < expiry"
  shows "window_open sp expiry (bufs @ map (\<lambda>(g, d). to_buffer d) gds)
           (run (arrivals sp fetched mimeType gds) w)
     \<and> sttSession (chan sp (run (arrivals sp fetched mimeType gds) w)) = Some s
     \<and> modelInfo (run (arrivals sp fetched mimeType gds) w) = Some mi
     \<and> trace (run (arrivals sp fetched mimeType gds) w) = trace w
     \<and> clock (run (arrivals sp fetched mimeType gds) w) = clock w + sum_list (map fst gds)"
  using assms
proof (induction gds arbitrary: w bufs)
  case Nil
  then show ?case by simp
next
  case (Cons gd gds)
  obtain g d where gd: "gd = (g, d)" by (cases gd)
  let ?w1 = "run [Elapse g, Audio sp fetched d mimeType] w"
  have lt: "clock w + g < expiry" using Cons.prems(5) gd by simp
  note a = window_arrival [OF Cons.prems(1,2,3,4) lt, where d = d and fetched = fetched
      and mimeType = mimeType]
  have lt': "clock ?w1 + sum_list (map fst gds) < expiry"
    using Cons.prems(5) gd by (simp only: a(5)) simp
  have r: "run (arrivals sp fetched mimeType (gd # gds)) w = run (arrivals sp fetched mimeType gds) ?w1"
    by (simp add: gd)
  from Cons.IH [OF a(2,3) Cons.prems(3) a(1) lt'] show ?case
    unfolding r by (simp only: a(4,5)) (simp add: gd)
qed

lemma window_expires:
  assumes "sttSession (chan sp w) = Some s" "has_transcribeAudio s"
    and "window_open sp expiry bufs w" "expiry \<le> t"
    and "concat bufs \<noteq> []" "36 + length (concat bufs) \<le> 4294967295"
  shows "trace (advance t w) = trace w @ [TranscribeAudio sp (wav_header (length (concat bufs)) @ concat bufs)]"
    and "audioBuffer (chan sp (advance t w)) = []"
    and "audioTimer (chan sp (advance t w)) = None"
    and "timers (advance t w) = []"
proof -
  from assms(3) obtain h where t: "timers w = [Timer h expiry (SendBufferedAudio sp)]"
    and b: "audioBuffer (chan sp w) = bufs"
    by (auto simp: window_open_def)
  let ?x = "Timer h expiry (SendBufferedAudio sp)"
  let ?w0 = "w\<lparr>timers := filter (\<lambda>y. tid y \<noteq> h) (timers w), clock := max (clock w) expiry\<rparr>"
  have 1: "advance t w = advance t (fire ?x w)"
    using assms(4) by (subst advance.simps) (simp add: t)
  have f: "fire ?x w = emit [TranscribeAudio sp (wav_header (length (concat bufs)) @ concat bufs)]
       (upd_chan sp (\<lambda>c. c\<lparr>audioBuffer := [], audioTimer := None\<rparr>) ?w0)"
    unfolding fire_SendBufferedAudio
    using sendBufferedAudio_submits [of sp ?w0 s] assms(1,2,5,6) b by simp
  have 2: "timers (fire ?x w) = []"
    by (simp add: f t)
  have 3: "advance t (fire ?x w) = (fire ?x w)\<lparr>clock := max (clock (fire ?x w)) t\<rparr>"
    by (rule advance_none) (simp add: 2)
  show "trace (advance t w) = trace w @ [TranscribeAudio sp (wav_header (length (concat bufs)) @ concat bufs)]"
    by (simp add: 1 3) (simp add: f)
  show "audioBuffer (chan sp (advance t w)) = []"
    by (simp add: 1 3) (simp add: f)
  show "audioTimer (chan sp (advance t w)) = None"
    by (simp add: 1 3) (simp add: f)
  show "timers (advance t w) = []"
    by (simp add: 1 3 2)
qed


text \<open>
  Claim C5. Let a batch channel with a session that has \<open>transcribeAudio\<close> be idle (no timer
  queued, empty audio buffer), and let audio arrive in any number of pieces, 12000 bytes in
  all, the later pieces within the 5000 ms window that the first one opens. Nothing is
  submitted while the pieces arrive. When the window has expired, exactly one
  \<open>transcribeAudio\<close> call has been made; its payload is the 44-byte header for 12000 bytes
  followed by the pieces in order, 12044 bytes; and in the state in which it was made the
  pending buffer is empty, the timer handle is cleared and no timer is queued.
\<close>

theorem batch_window_submits_once:
  assumes "sttSession (chan sp w) = Some s" and "has_transcribeAudio s"
    and "modelInfo w = Some mi" and "provider mi = ''gaia''"
    and "timers w = []" and "audioBuffer (chan sp w) = []" and "audioTimer (chan sp w) = None"
    and "sum_list (map fst gds) < AUDIO_SEND_INTERVAL"
    and "length (concat (to_buffer d0 # map (\<lambda>(g, d). to_buffer d) gds)) = 12000"
    and "AUDIO_SEND_INTERVAL \<le> sum_list (map fst gds) + r"
  shows "trace (run (Audio sp fetched d0 mimeType # arrivals sp fetched mimeType gds) w) = trace w
     \<and> trace (run (Audio sp fetched d0 mimeType # arrivals sp fetched mimeType gds @ [Elapse r]) w)
         = trace w @ [TranscribeAudio sp
              (wav_header 12000 @ concat (to_buffer d0 # map (\<lambda>(g, d). to_buffer d) gds))]
     \<and> length (wav_header 12000 @ concat (to_buffer d0 # map (\<lambda>(g, d). to_buffer d) gds)) = 12000 + 44
     \<and> audioBuffer (chan sp (run (Audio sp fetched d0 mimeType # arrivals sp fetched mimeType gds
           @ [Elapse r]) w)) = []
     \<and> audioTimer (chan sp (run (Audio sp fetched d0 mimeType # arrivals sp fetched mimeType gds
           @ [Elapse r]) w)) = None
     \<and> timers (run (Audio sp fetched d0 mimeType # arrivals sp fetched mimeType gds @ [Elapse r]) w) = []"
proof -
  let ?pcm = "concat (to_buffer d0 # map (\<lambda>(g, d). to_buffer d) gds)"
  let ?w0 = "step (Audio sp fetched d0 mimeType) w"
  let ?w1 = "run (arrivals sp fetched mimeType gds) ?w0"
  have m: "selected_model fetched w = Some mi"
    using assms(3) by (simp add: selected_model_def)
  have w0: "?w0 = upd_chan sp (\<lambda>c. c\<lparr>audioTimer := Some (nextTimer w)\<rparr>)
                 (upd_chan sp (\<lambda>c. c\<lparr>audioBuffer := audioBuffer c @ [to_buffer d0]\<rparr>) w
                   \<lparr>timers := timers w @ [Timer (nextTimer w) (clock w + AUDIO_SEND_INTERVAL)
                                            (SendBufferedAudio sp)],
                     nextTimer := Suc (nextTimer w)\<rparr>)"
    by (simp add: sendAudio_gaia [OF assms(1) m assms(4)] assms(7))
  have s0: "sttSession (chan sp ?w0) = Some s" and m0: "modelInfo ?w0 = Some mi"
    and t0: "trace ?w0 = trace w" and c0: "clock ?w0 = clock w"
    and o0: "window_open sp (clock w + AUDIO_SEND_INTERVAL) [to_buffer d0] ?w0"
    unfolding w0 using assms(1,3,5,6) by (simp_all add: window_open_def AUDIO_SEND_INTERVAL_def)
  have lt: "clock ?w0 + sum_list (map fst gds) < clock w + AUDIO_SEND_INTERVAL"
    using assms(8) by (simp only: c0)
  from window_arrivals [OF s0 m0 assms(4) o0 lt, of fetched mimeType]
  have o1: "window_open sp (clock w + AUDIO_SEND_INTERVAL)
              ([to_buffer d0] @ map (\<lambda>(g, d). to_buffer d) gds) ?w1"
    and s1: "sttSession (chan sp ?w1) = Some s"
    and t1: "trace ?w1 = trace w"
    and c1: "clock ?w1 = clock w + sum_list (map fst gds)"
    by (simp_all only: t0 c0)
  have pcm: "concat ([to_buffer d0] @ map (\<lambda>(g, d). to_buffer d) gds) = ?pcm"
    by simp
  have len: "length ?pcm = 12000"
    by (rule assms(9))
  have ne: "concat ([to_buffer d0] @ map (\<lambda>(g, d). to_buffer d) gds) \<noteq> []"
    unfolding pcm using len by (metis list.size(3) zero_neq_numeral)
  have fits: "36 + length (concat ([to_buffer d0] @ map (\<lambda>(g, d). to_buffer d) gds)) \<le> 4294967295"
    unfolding pcm len by simp
  have due: "clock w + AUDIO_SEND_INTERVAL \<le> clock ?w1 + r"
    using assms(10) by (simp only: c1)
  note x = window_expires [OF s1 assms(2) o1 due ne fits, unfolded pcm len]
  have r1: "run (Audio sp fetched d0 mimeType # arrivals sp fetched mimeType gds) w = ?w1"
    by (simp del: step.simps)
  have r2: "run (Audio sp fetched d0 mimeType # arrivals sp fetched mimeType gds @ [Elapse r]) w
      = advance (clock ?w1 + r) ?w1"
    by (simp add: run_append del: step.simps) simp
  show ?thesis
    unfolding r1 r2 using x t1 len by (simp del: step.simps length_concat)
qed


theorem batch_window_submits_once_witness:
  "trace (run (Audio Me None (BufferData (replicate 7000 0)) []
        # arrivals Me None [] [(3000, Base64Data (replicate 5000 1))] @ [Elapse 2000])
      (started ''gaia'' gaia_session))
     = [TranscribeAudio Me (wav_header 12000 @ replicate 7000 0 @ replicate 5000 1)]
   \<and> length (wav_header 12000 @ replicate 7000 0 @ replicate 5000 (1::byte)) = 12044"
proof -
  let ?w = "started ''gaia'' gaia_session"
  let ?gds = "[(3000, Base64Data (replicate 5000 1))]"
  have h: "sttSession (chan Me ?w) = Some gaia_session" "has_transcribeAudio gaia_session"
    "modelInfo ?w = Some \<lparr>provider = ''gaia'', apiKey = ''key''\<rparr>"
    "provider \<lparr>provider = ''gaia'', apiKey = ''key''\<rparr> = ''gaia''"
    "timers ?w = []" "audioBuffer (chan Me ?w) = []" "audioTimer (chan Me ?w) = None"
    by code_simp+
  have g: "sum_list (map fst ?gds) < AUDIO_SEND_INTERVAL"
    "length (concat (to_buffer (BufferData (replicate 7000 0)) # map (\<lambda>(g, d). to_buffer d) ?gds)) = 12000"
    "AUDIO_SEND_INTERVAL \<le> sum_list (map fst ?gds) + 2000"
    by (simp_all add: AUDIO_SEND_INTERVAL_def)
  have v: "trace ?w = []" by code_simp
  from batch_window_submits_once [OF h g, of None "[]"] show ?thesis
    by (simp add: v)
qed

section \<open>One window timer per channel\<close>

definition audio_timers :: "speaker \<Rightarrow> world \<Rightarrow> timer list" where
  "audio_timers sp w = filter (\<lambda>t. callback t = SendBufferedAudio sp) (timers w)"

lemma same_handle_at_most_one:
  assumes "distinct (map tid xs)" "\<forall>t \<in> set xs. tid t = h"
  shows "length xs \<le> 1"
proof (cases xs)
  case Nil
  then show ?thesis by simp
next
  case (Cons x ys)
  with assms show ?thesis by (cases ys) auto
qed

lemma audio_timers_at_most_one:
  assumes "consistent w"
  shows "length (audio_timers sp w) \<le> 1"
proof (cases "audio_timers sp w")
  case Nil
  then show ?thesis by simp
next
  case (Cons x xs)
  then have "x \<in> set (audio_timers sp w)" by simp
  have all: "\<forall>t \<in> set (audio_timers sp w). Some (tid t) = audioTimer (chan sp w)"
    using assms by (auto simp: audio_timers_def consistent_def timers_ok_def handle_of_def)
  then have "\<forall>t \<in> set (audio_timers sp w). tid t = tid x"
    using \<open>x \<in> set (audio_timers sp w)\<close> by (metis option.inject)
  moreover have "distinct (map tid (audio_timers sp w))"
    using assms by (simp add: audio_timers_def consistent_def timers_ok_def distinct_map_filter)
  ultimately show ?thesis by (rule same_handle_at_most_one [rotated])
qed

lemma audio_timers_unarmed:
  assumes "consistent w" "audioTimer (chan sp w) = None"
  shows "audio_timers sp w = []"
proof -
  have "\<forall>t \<in> set (timers w). callback t \<noteq> SendBufferedAudio sp"
    using assms by (auto simp: consistent_def timers_ok_def handle_of_def)
  then show ?thesis
    by (simp add: audio_timers_def filter_empty_conv)
qed

text \<open>
  Claim C7. In every state the service can reach, a channel has at most one window timer
  queued. When, in such a state, the channel belongs to the batch provider: if its timer handle
  is set, an audio arrival appends its bytes to the pending buffer and changes nothing else
  (the queue of timers with their due times, the handle and the next handle stay as they are);
  if the handle is not set, no window timer of the channel is queued and the arrival queues
  exactly one, due 5000 ms later.
\<close>

theorem window_timer_armed_once:
  assumes "w = run es constructor"
  shows "length (audio_timers sp w) \<le> 1
     \<and> (sttSession (chan sp w) = Some s \<and> selected_model fetched w = Some mi
          \<and> provider mi = ''gaia'' \<and> audioTimer (chan sp w) \<noteq> None \<longrightarrow>
        sendAudio sp fetched data mimeType w
          = Inr (upd_chan sp (\<lambda>c. c\<lparr>audioBuffer := audioBuffer c @ [to_buffer data]\<rparr>) w)
        \<and> timers (step (Audio sp fetched data mimeType) w) = timers w
        \<and> audio_timers sp (step (Audio sp fetched data mimeType) w) = audio_timers sp w
        \<and> audioTimer (chan sp (step (Audio sp fetched data mimeType) w)) = audioTimer (chan sp w)
        \<and> nextTimer (step (Audio sp fetched data mimeType) w) = nextTimer w
        \<and> audioBuffer (chan sp (step (Audio sp fetched data mimeType) w))
            = audioBuffer (chan sp w) @ [to_buffer data])
     \<and> (sttSession (chan sp w) = Some s \<and> selected_model fetched w = Some mi
          \<and> provider mi = ''gaia'' \<and> audioTimer (chan sp w) = None \<longrightarrow>
        audio_timers sp w = []
        \<and> audio_timers sp (step (Audio sp fetched data mimeType) w)
            = [Timer (nextTimer w) (clock w + AUDIO_SEND_INTERVAL) (SendBufferedAudio sp)]
        \<and> audioTimer (chan sp (step (Audio sp fetched data mimeType) w)) = Some (nextTimer w))"
proof -
  have c: "consistent w"
    unfolding assms(1) by (rule consistent_reachable)
  then have one: "length (audio_timers sp w) \<le> 1"
    by (rule audio_timers_at_most_one)
  have armed: "sendAudio sp fetched data mimeType w
          = Inr (upd_chan sp (\<lambda>c. c\<lparr>audioBuffer := audioBuffer c @ [to_buffer data]\<rparr>) w)
        \<and> timers (step (Audio sp fetched data mimeType) w) = timers w
        \<and> audio_timers sp (step (Audio sp fetched data mimeType) w) = audio_timers sp w
        \<and> audioTimer (chan sp (step (Audio sp fetched data mimeType) w)) = audioTimer (chan sp w)
        \<and> nextTimer (step (Audio sp fetched data mimeType) w) = nextTimer w
        \<and> audioBuffer (chan sp (step (Audio sp fetched data mimeType) w))
            = audioBuffer (chan sp w) @ [to_buffer data]"
    if "sttSession (chan sp w) = Some s" "selected_model fetched w = Some mi"
      "provider mi = ''gaia''" "audioTimer (chan sp w) \<noteq> None"
  proof -
    have sa: "sendAudio sp fetched data mimeType w
        = Inr (upd_chan sp (\<lambda>c. c\<lparr>audioBuffer := audioBuffer c @ [to_buffer data]\<rparr>) w)"
      using that(4) by (auto simp: sendAudio_gaia [OF that(1,2,3)])
    show ?thesis
      by (simp add: sa audio_timers_def)
  qed
  have unarmed: "audio_timers sp w = []
        \<and> audio_timers sp (step (Audio sp fetched data mimeType) w)
            = [Timer (nextTimer w) (clock w + AUDIO_SEND_INTERVAL) (SendBufferedAudio sp)]
        \<and> audioTimer (chan sp (step (Audio sp fetched data mimeType) w)) = Some (nextTimer w)"
    if "sttSession (chan sp w) = Some s" "selected_model fetched w = Some mi"
      "provider mi = ''gaia''" "audioTimer (chan sp w) = None"
  proof -
    have none: "audio_timers sp w = []"
      by (rule audio_timers_unarmed [OF c that(4)])
    then have "filter (\<lambda>t. callback t = SendBufferedAudio sp) (timers w) = []"
      by (simp add: audio_timers_def)
    then show ?thesis
      using that(4) none by (simp add: sendAudio_gaia [OF that(1,2,3)] audio_timers_def)
  qed
  from one armed unarmed show ?thesis
    by blast
qed

theorem window_timer_armed_once_witness:
  "length (audio_timers Me one_window) \<le> 1
   \<and> timers (step (Audio Me None (BufferData [5, 6]) []) one_window) = [Timer 1 5000 (SendBufferedAudio Me)]
   \<and> audioBuffer (my (step (Audio Me None (BufferData [5, 6]) []) one_window)) = [[1, 2, 3, 4], [5, 6]]"
proof -
  have h: "one_window = run [InitializeBegin (Some \<lparr>provider = ''gaia'', apiKey = ''key''\<rparr>),
       InitializeEnd gaia_session gaia_session, Audio Me None (BufferData [1, 2, 3, 4]) []] constructor"
    by code_simp
  have p: "sttSession (chan Me one_window) = Some gaia_session"
    "selected_model None one_window = Some \<lparr>provider = ''gaia'', apiKey = ''key''\<rparr>"
    "provider \<lparr>provider = ''gaia'', apiKey = ''key''\<rparr> = ''gaia''"
    "audioTimer (chan Me one_window) \<noteq> None"
    by code_simp+
  have v: "timers one_window = [Timer 1 5000 (SendBufferedAudio Me)]"
    "audioBuffer (my one_window) = [[1, 2, 3, 4]]"
    by code_simp+
  from window_timer_armed_once [OF h, of Me gaia_session None
      "\<lparr>provider = ''gaia'', apiKey = ''key''\<rparr>" "BufferData [5, 6]" "[]"] p
  show ?thesis
    by (simp add: v del: step.simps)
qed

section \<open>Closing\<close>

lemma cancel_completion_fields [simp]:
  "timers (cancel_completion sp w)
     = (case completionTimer (chan sp w) of Some h \<Rightarrow> filter (\<lambda>t. tid t \<noteq> h) (timers w)
        | None \<Rightarrow> timers w)"
  "chan sp' (cancel_completion sp w)
     = (if sp' = sp then (chan sp w)\<lparr>completionTimer := None\<rparr> else chan sp' w)"
  "trace (cancel_completion sp w) = trace w"
  "modelInfo (cancel_completion sp w) = modelInfo w"
  "systemAudioProc (cancel_completion sp w) = systemAudioProc w"
  by (auto simp: cancel_completion_def split: option.splits)

lemma cancel_audio_fields [simp]:
  "timers (cancel_audio sp w)
     = (case audioTimer (chan sp w) of Some h \<Rightarrow> filter (\<lambda>t. tid t \<noteq> h) (timers w)
        | None \<Rightarrow> timers w)"
  "chan sp' (cancel_audio sp w)
     = (if sp' = sp \<and> audioTimer (chan sp w) \<noteq> None
        then (chan sp w)\<lparr>audioTimer := None, audioBuffer := []\<rparr> else chan sp' w)"
  "trace (cancel_audio sp w) = trace w"
  "modelInfo (cancel_audio sp w) = modelInfo w"
  "systemAudioProc (cancel_audio sp w) = systemAudioProc w"
  by (auto simp: cancel_audio_def split: option.splits)

lemma release_fields [simp]:
  "timers (release sp w) = timers w"
  "chan sp' (release sp w) = (if sp' = sp then (chan sp w)\<lparr>sttSession := None\<rparr> else chan sp' w)"
  "trace (release sp w)
     = trace w @ (if sttSession (chan sp w) \<noteq> None then [SessionClose sp] else [])"
  "modelInfo (release sp w) = modelInfo w"
  "systemAudioProc (release sp w) = systemAudioProc w"
  by (auto simp: release_def split: option.splits)

lemma stopMacOSAudioCapture_fields [simp]:
  "timers (stopMacOSAudioCapture w) = timers w"
  "chan sp (stopMacOSAudioCapture w) = chan sp w"
  "trace (stopMacOSAudioCapture w) = trace w @ (if systemAudioProc w then [KillCapture] else [])"
  "modelInfo (stopMacOSAudioCapture w) = modelInfo w"
  "systemAudioProc (stopMacOSAudioCapture w) = False"
  by (auto simp: stopMacOSAudioCapture_def)

lemma closeSessions_end_fields [simp]:
  "timers (closeSessions_end w) = timers w"
  "chan sp (closeSessions_end w) = (chan sp w)\<lparr>currentUtterance := [], completionBuffer := []\<rparr>"
  "trace (closeSessions_end w) = trace w"
  "modelInfo (closeSessions_end w) = None"
  by (cases sp; simp add: closeSessions_end_def)+

lemma timers_closeSessions_begin:
  assumes "consistent w"
  shows "timers (closeSessions_begin w) = []"
proof -
  have "t \<notin> set (timers (closeSessions_begin w))" for t
  proof
    assume t: "t \<in> set (timers (closeSessions_begin w))"
    then have t0: "t \<in> set (timers w)"
      by (auto simp: closeSessions_begin_def split: option.splits if_splits)
    then have h: "handle_of (callback t) w = Some (tid t)"
      using assms by (simp add: consistent_def timers_ok_def)
    show False
    proof (cases "callback t")
      case (FlushCompletion sp)
      with h t show ?thesis
        by (cases sp) (auto simp: closeSessions_begin_def handle_of_def split: option.splits if_splits)
    next
      case (SendBufferedAudio sp)
      with h t show ?thesis
        by (cases sp) (auto simp: closeSessions_begin_def handle_of_def split: option.splits if_splits)
    qed
  qed
  then show ?thesis by (cases "timers (closeSessions_begin w)") auto
qed

lemma chan_closeSessions:
  assumes "consistent w"
  shows "chan sp (closeSessions_end (closeSessions_begin w)) = empty_channel"
proof -
  have "audioBuffer (chan sp w) \<noteq> [] \<longrightarrow> audioTimer (chan sp w) \<noteq> None"
    using assms by (simp add: consistent_def buffers_ok_chan)
  then show ?thesis
    by (cases sp) (auto simp: closeSessions_begin_def empty_channel_def)
qed

lemma run_elapse_idle:
  "timers w = [] \<Longrightarrow> run (map Elapse ds) w = w\<lparr>clock := clock w + sum_list ds\<rparr>"
proof (induction ds arbitrary: w)
  case Nil
  then show ?case by simp
next
  case (Cons d ds)
  have a: "advance (clock w + d) w = w\<lparr>clock := clock w + d\<rparr>"
    using Cons.prems by (subst advance_none) (simp_all add: max_def)
  have "run (map Elapse ds) (w\<lparr>clock := clock w + d\<rparr>)
      = (w\<lparr>clock := clock w + d\<rparr>)\<lparr>clock := clock (w\<lparr>clock := clock w + d\<rparr>) + sum_list ds\<rparr>"
    by (rule Cons.IH) (simp add: Cons.prems)
  then show ?case
    by (simp add: a add.assoc)
qed

lemma closeSessions_idle:
  assumes "consistent w"
  shows "closeSessions (map Elapse ds) None w
     = (None, closeSessions_end
                ((closeSessions_begin w)\<lparr>clock := clock (closeSessions_begin w) + sum_list ds\<rparr>))"
  by (simp add: closeSessions_def Let_def run_elapse_idle [OF timers_closeSessions_begin [OF assms]])

text \<open>
  Claim C9, as amended. In every state the service can reach, the first, synchronous part of
  \<open>closeSessions\<close> cancels every queued timer and issues the \<open>close\<close> call on each held
  session, both before the \<open>await\<close>, adding to the trace nothing but the kill of the capture
  process and those \<open>close\<close> calls. When nothing but time passes while \<open>closeSessions\<close> is
  suspended at the \<open>await\<close>, and both \<open>close\<close> calls resolve, then closing as a whole adds
  nothing more to the trace, so no transcript event, and whatever text was pending in the
  completion buffers is dropped; afterwards both channels are as the constructor left them (no
  session, empty utterance and completion buffer, empty audio buffer, no timer handle), the
  model info is cleared and no timer is queued, so that no final event follows later either.
\<close>

theorem closeSessions_discards_pending:
  assumes "w = run es constructor"
  shows "timers (closeSessions_begin w) = []
     \<and> trace (closeSessions_begin w)
         = trace w @ (if systemAudioProc w then [KillCapture] else [])
             @ (if sttSession (my w) \<noteq> None then [SessionClose Me] else [])
             @ (if sttSession (their w) \<noteq> None then [SessionClose Them] else [])
     \<and> fst (closeSessions (map Elapse ds) None w) = None
     \<and> trace (snd (closeSessions (map Elapse ds) None w)) = trace (closeSessions_begin w)
     \<and> final_events (trace (snd (closeSessions (map Elapse ds) None w))) = final_events (trace w)
     \<and> my (snd (closeSessions (map Elapse ds) None w)) = empty_channel
     \<and> their (snd (closeSessions (map Elapse ds) None w)) = empty_channel
     \<and> modelInfo (snd (closeSessions (map Elapse ds) None w)) = None
     \<and> timers (snd (closeSessions (map Elapse ds) None w)) = []
     \<and> final_events (trace (advance t (snd (closeSessions (map Elapse ds) None w))))
         = final_events (trace w)"
proof -
  have c: "consistent w"
    unfolding assms by (rule consistent_reachable)
  let ?b = "closeSessions_begin w"
  let ?w = "snd (closeSessions (map Elapse ds) None w)"
  have w: "?w = closeSessions_end (?b\<lparr>clock := clock ?b + sum_list ds\<rparr>)"
    and ok: "fst (closeSessions (map Elapse ds) None w) = None"
    by (simp_all add: closeSessions_idle [OF c])
  have t: "timers ?b = []"
    by (rule timers_closeSessions_begin [OF c])
  have tr: "trace ?b
         = trace w @ (if systemAudioProc w then [KillCapture] else [])
             @ (if sttSession (my w) \<noteq> None then [SessionClose Me] else [])
             @ (if sttSession (their w) \<noteq> None then [SessionClose Them] else [])"
    by (auto simp: closeSessions_begin_def)
  have tr2: "trace ?w = trace ?b"
    by (simp add: w)
  have f: "final_events (trace ?w) = final_events (trace w)"
    by (simp add: tr2 tr)
  have e: "chan sp ?w = chan sp (closeSessions_end ?b)" for sp
    by (simp add: w)
  have ch: "my ?w = empty_channel" "their ?w = empty_channel"
    using e [of Me] e [of Them] chan_closeSessions [OF c, of Me] chan_closeSessions [OF c, of Them]
    by simp_all
  have mi: "modelInfo ?w = None"
    by (simp add: w)
  have t2: "timers ?w = []"
    by (simp add: w t)
  have "advance t ?w = ?w\<lparr>clock := max (clock ?w) t\<rparr>"
    by (rule advance_none) (simp add: t2)
  then have later: "final_events (trace (advance t ?w)) = final_events (trace w)"
    by (simp add: f)
  show ?thesis
    by (intro conjI t tr ok tr2 f ch mi t2 later)
qed


definition pending_text :: world where
  "pending_text = run [InitializeBegin (Some \<lparr>provider = ''openai'', apiKey = ''key''\<rparr>),
       InitializeEnd realtime_session realtime_session,
       Message Me (completed_message ''hello'')] constructor"

theorem closeSessions_discards_pending_witness:
  "completionBuffer (my pending_text) = ''hello'' \<and> timers pending_text \<noteq> []
   \<and> trace (snd (closeSessions (map Elapse [300]) None pending_text)) = [SessionClose Me, SessionClose Them]
   \<and> final_events (trace (advance 5000 (snd (closeSessions (map Elapse [300]) None pending_text)))) = []
   \<and> my (snd (closeSessions (map Elapse [300]) None pending_text)) = empty_channel
   \<and> their (snd (closeSessions (map Elapse [300]) None pending_text)) = empty_channel
   \<and> timers (snd (closeSessions (map Elapse [300]) None pending_text)) = []"
proof -
  have v: "completionBuffer (my pending_text) = ''hello''" "timers pending_text \<noteq> []"
    "trace pending_text = []" "systemAudioProc pending_text = False"
    "sttSession (my pending_text) \<noteq> None" "sttSession (their pending_text) \<noteq> None"
    by code_simp+
  from closeSessions_discards_pending [OF pending_text_def, of "[300]" 5000] show ?thesis
    by (simp add: v)
qed

text \<open>
  Claim C9 as it was worded fails when a provider message is handled while \<open>closeSessions\<close> is
  suspended at its \<open>await\<close>, or when a \<open>close\<close> call rejects. The handlers refuse messages
  only once \<open>this.modelInfo\<close> is reset, which happens after the \<open>await\<close>. With the gemini
  provider a fragment and a turn-complete marker arriving in between produce a partial and a
  final event during the close. With the openai provider a completed message arriving in
  between arms the debounce timer again: after the close its handle is still set and the
  timer is still queued. When a \<open>close\<close> call rejects, the pending text and the model info
  stay.
\<close>

theorem closeSessions_interleaved:
  "trace (snd (closeSessions [Message Me (transcription_message ''a''), Message Me turn_complete_message]
       None (started ''gemini'' realtime_session)))
     = [SessionClose Me, SessionClose Them, SttUpdate Me ''a'' True 0, SttUpdate Me ''a'' False 0]
   \<and> completionTimer (my (snd (closeSessions [Message Me (completed_message ''world'')] None pending_text)))
       = Some 2
   \<and> timers (snd (closeSessions [Message Me (completed_message ''world'')] None pending_text))
       = [Timer 2 2000 (FlushCompletion Me)]
   \<and> completionBuffer (my (snd (closeSessions [] (Some (Error ''close failed'')) pending_text))) = ''hello''
   \<and> modelInfo (snd (closeSessions [] (Some (Error ''close failed'')) pending_text))
       = Some \<lparr>provider = ''openai'', apiKey = ''key''\<rparr>"
  by code_simp

section \<open>Capture chunking\<close>

text \<open>
  The mono chunks forwarded for metering, in order; the bytes the subprocess has written, in
  order; and the events of the capture closure.
\<close>

fun forwarded_chunk :: "effect \<Rightarrow> buffer list" where
  "forwarded_chunk (SystemAudioData b) = [b]"
| "forwarded_chunk e = []"

definition forwarded :: "effect list \<Rightarrow> buffer list" where
  "forwarded es = concat (map forwarded_chunk es)"

fun capture_bytes :: "event \<Rightarrow> buffer" where
  "capture_bytes (CaptureData d) = d"
| "capture_bytes e = []"

definition capture_stream :: "event list \<Rightarrow> buffer" where
  "capture_stream es = concat (map capture_bytes es)"

fun is_capture_event :: "event \<Rightarrow> bool" where
  "is_capture_event (CaptureData d) = True"
| "is_capture_event (CaptureResume ok) = True"
| "is_capture_event e = False"

lemma forwarded_simps [simp]:
  "forwarded [] = []"
  "forwarded (es @ es') = forwarded es @ forwarded es'"
  "forwarded (e # es) = forwarded_chunk e @ forwarded es"
  by (simp_all add: forwarded_def)

lemma CHUNK_SIZE_eq: "CHUNK_SIZE = 9600"
  by (simp add: CHUNK_SIZE_def SAMPLE_RATE_def BYTES_PER_SAMPLE_def CHANNELS_def)

definition sliced :: "world \<Rightarrow> world \<Rightarrow> buffer list \<Rightarrow> bool" where
  "sliced w w' taken \<longleftrightarrow>
     forwarded (trace w') = forwarded (trace w) @ map left_samples taken
     \<and> (\<forall>c \<in> set taken. length c = CHUNK_SIZE)
     \<and> concat taken @ capture_audioBuffer w' = capture_audioBuffer w"

lemma capture_loop_slices:
  "\<exists>taken. sliced w (capture_loop w) taken
     \<and> (capture_awaiting (capture_loop w) = capture_awaiting w
           \<and> length (capture_audioBuffer (capture_loop w)) < CHUNK_SIZE
         \<or> capture_awaiting (capture_loop w) = Suc (capture_awaiting w) \<and> taken \<noteq> [])"
proof (induction w rule: capture_loop.induct)
  case (1 w)
  show ?case
  proof (cases "CHUNK_SIZE \<le> length (capture_audioBuffer w)")
    case False
    then have "capture_loop w = w" by (subst capture_loop.simps) simp
    with False have "sliced w (capture_loop w) []
       \<and> capture_awaiting (capture_loop w) = capture_awaiting w
       \<and> length (capture_audioBuffer (capture_loop w)) < CHUNK_SIZE"
      by (simp add: sliced_def)
    then show ?thesis by blast
  next
    case True
    let ?chunk = "take CHUNK_SIZE (capture_audioBuffer w)"
    let ?w1 = "w\<lparr>capture_audioBuffer := drop CHUNK_SIZE (capture_audioBuffer w)\<rparr>"
    let ?w2 = "emit [SystemAudioData (left_samples ?chunk)] ?w1"
    have len: "length ?chunk = CHUNK_SIZE" using True by simp
    then have mono: "convertStereoToMono ?chunk = Inr (left_samples ?chunk)"
      by (simp add: convertStereoToMono_def CHUNK_SIZE_eq)
    have one: "sliced w ?w2 [?chunk]"
      using len by (simp add: sliced_def)
    have extend: "\<exists>taken. sliced w w' taken \<and> taken \<noteq> []" if "sliced ?w2 w' taken'" for w' taken'
    proof -
      from that one have "sliced w w' (?chunk # taken')"
        by (auto simp: sliced_def)
      then show ?thesis by blast
    qed
    show ?thesis
    proof (cases "sttSession (their ?w2)")
      case None
      then have eq: "capture_loop w = capture_loop ?w2"
        using True mono by (subst capture_loop.simps) (simp add: Let_def)
      from "1.IH"(1) [OF True refl refl mono refl None]
      obtain taken' where t: "sliced ?w2 (capture_loop ?w2) taken'"
        and a: "capture_awaiting (capture_loop ?w2) = capture_awaiting ?w2
                  \<and> length (capture_audioBuffer (capture_loop ?w2)) < CHUNK_SIZE
                \<or> capture_awaiting (capture_loop ?w2) = Suc (capture_awaiting ?w2)"
        by blast
      from extend [OF t] a show ?thesis
        unfolding eq by auto
    next
      case (Some s)
      show ?thesis
      proof (cases "has_sendRealtimeInput s")
        case yes: True
        let ?w3 = "(emit [SendRealtimeInput Them (capture_payload ?w2 (left_samples ?chunk))] ?w2)
                     \<lparr>capture_awaiting := Suc (capture_awaiting ?w2)\<rparr>"
        have eq: "capture_loop w = ?w3"
          using True mono Some yes by (subst capture_loop.simps) (simp add: Let_def)
        have "sliced w ?w3 [?chunk]"
          using len by (simp add: sliced_def)
        then show ?thesis
          unfolding eq by (intro exI [of _ "[?chunk]"]) simp
      next
        case no: False
        let ?w3 = "emit [ConsoleError ''Error sending system audio:''] ?w2"
        have eq: "capture_loop w = capture_loop ?w3"
          using True mono Some no by (subst capture_loop.simps) (simp add: Let_def)
        from "1.IH"(2) [OF True refl refl mono refl Some no]
        obtain taken' where t: "sliced ?w3 (capture_loop ?w3) taken'"
          and a: "capture_awaiting (capture_loop ?w3) = capture_awaiting ?w3
                    \<and> length (capture_audioBuffer (capture_loop ?w3)) < CHUNK_SIZE
                  \<or> capture_awaiting (capture_loop ?w3) = Suc (capture_awaiting ?w3)"
          by blast
        from t have "sliced ?w2 (capture_loop ?w3) taken'"
          by (simp add: sliced_def)
        from extend [OF this] a show ?thesis
          unfolding eq by auto
      qed
    qed
  qed
qed


lemma sliced_trans:
  assumes "sliced w w' taken" "sliced w' w'' taken'"
  shows "sliced w w'' (taken @ taken')"
  using assms by (auto simp: sliced_def)

definition drained :: "world \<Rightarrow> bool" where
  "drained w \<longleftrightarrow> (capture_awaiting w = 0 \<longrightarrow> length (capture_audioBuffer w) < CHUNK_SIZE)"

lemma capture_data_slices:
  assumes "drained w"
  shows "\<exists>taken. sliced (w\<lparr>capture_audioBuffer := capture_audioBuffer w @ d\<rparr>) (capture_data d w) taken
     \<and> drained (capture_data d w)"
proof -
  let ?w = "w\<lparr>capture_audioBuffer := capture_audioBuffer w @ d\<rparr>"
  from capture_loop_slices [of ?w] show ?thesis
    unfolding capture_data_def by (auto simp: drained_def)
qed

lemma capture_resume_slices:
  assumes "drained w"
  shows "\<exists>taken. sliced w (capture_resume ok w) taken \<and> drained (capture_resume ok w)"
proof (cases "capture_awaiting w = 0")
  case True
  with assms have "sliced w (capture_resume ok w) [] \<and> drained (capture_resume ok w)"
    by (simp add: capture_resume_def sliced_def)
  then show ?thesis ..
next
  case False
  let ?w1 = "w\<lparr>capture_awaiting := capture_awaiting w - 1\<rparr>"
  let ?w2 = "if ok then ?w1 else emit [ConsoleError ''Error sending system audio:''] ?w1"
  have r: "capture_resume ok w = capture_loop ?w2"
    using False by (simp add: capture_resume_def Let_def)
  have s: "sliced w ?w2 []"
    by (simp add: sliced_def)
  from capture_loop_slices [of ?w2] obtain taken where t: "sliced ?w2 (capture_loop ?w2) taken"
    and a: "capture_awaiting (capture_loop ?w2) = capture_awaiting ?w2
              \<and> length (capture_audioBuffer (capture_loop ?w2)) < CHUNK_SIZE
            \<or> capture_awaiting (capture_loop ?w2) = Suc (capture_awaiting ?w2)"
    by blast
  from sliced_trans [OF s t] have "sliced w (capture_resume ok w) taken"
    by (simp add: r)
  moreover from a have "drained (capture_resume ok w)"
    unfolding r by (auto simp: drained_def)
  ultimately show ?thesis by blast
qed

lemma capture_run_slices:
  assumes "\<forall>e \<in> set es. is_capture_event e" "capture_audioBuffer w = []" "capture_awaiting w = 0"
  shows "\<exists>taken. forwarded (trace (run es w)) = forwarded (trace w) @ map left_samples taken
     \<and> (\<forall>c \<in> set taken. length c = CHUNK_SIZE)
     \<and> concat taken @ capture_audioBuffer (run es w) = capture_stream es
     \<and> drained (run es w)"
  using assms(1)
proof (induction es rule: rev_induct)
  case Nil
  have "forwarded (trace w) = forwarded (trace w) @ map left_samples []
     \<and> (\<forall>c \<in> set ([] :: buffer list). length c = CHUNK_SIZE)
     \<and> concat [] @ capture_audioBuffer w = capture_stream []
     \<and> drained w"
    using assms(2,3) by (simp add: capture_stream_def drained_def CHUNK_SIZE_eq)
  then show ?case by (simp only: run.simps) blast
next
  case (snoc e es)
  let ?w = "run es w"
  from snoc obtain taken where f: "forwarded (trace ?w) = forwarded (trace w) @ map left_samples taken"
    and l: "\<forall>c \<in> set taken. length c = CHUNK_SIZE"
    and c: "concat taken @ capture_audioBuffer ?w = capture_stream es"
    and d: "drained ?w"
    by auto
  have r: "run (es @ [e]) w = step e ?w"
    by (simp add: run_append)
  from snoc.prems have "is_capture_event e" by simp
  then consider (data) x where "e = CaptureData x" | (resume) ok where "e = CaptureResume ok"
    by (cases e) simp_all
  then show ?case
  proof cases
    case data
    from capture_data_slices [OF d, of x] obtain taken' where
      s: "sliced (?w\<lparr>capture_audioBuffer := capture_audioBuffer ?w @ x\<rparr>) (capture_data x ?w) taken'"
      and d': "drained (capture_data x ?w)"
      by blast
    have "forwarded (trace (capture_data x ?w))
        = forwarded (trace w) @ map left_samples (taken @ taken')"
      using s f by (simp add: sliced_def)
    moreover have "\<forall>c \<in> set (taken @ taken'). length c = CHUNK_SIZE"
      using s l by (auto simp: sliced_def)
    moreover have "concat (taken @ taken') @ capture_audioBuffer (capture_data x ?w)
        = capture_stream (es @ [e])"
    proof -
      have "concat taken' @ capture_audioBuffer (capture_data x ?w) = capture_audioBuffer ?w @ x"
        using s by (simp add: sliced_def)
      then have "concat (taken @ taken') @ capture_audioBuffer (capture_data x ?w)
          = (concat taken @ capture_audioBuffer ?w) @ x"
        by simp
      also have "\<dots> = capture_stream (es @ [e])"
        by (simp only: c) (simp add: capture_stream_def data)
      finally show ?thesis .
    qed
    ultimately show ?thesis
      unfolding r using d' data by (intro exI [of _ "taken @ taken'"]) simp
  next
    case resume
    from capture_resume_slices [OF d, of ok] obtain taken' where
      s: "sliced ?w (capture_resume ok ?w) taken'" and d': "drained (capture_resume ok ?w)"
      by blast
    have "forwarded (trace (capture_resume ok ?w))
        = forwarded (trace w) @ map left_samples (taken @ taken')"
      using s f by (simp add: sliced_def)
    moreover have "\<forall>c \<in> set (taken @ taken'). length c = CHUNK_SIZE"
      using s l by (auto simp: sliced_def)
    moreover have "concat (taken @ taken') @ capture_audioBuffer (capture_resume ok ?w)
        = capture_stream (es @ [e])"
    proof -
      have "concat taken' @ capture_audioBuffer (capture_resume ok ?w) = capture_audioBuffer ?w"
        using s by (simp add: sliced_def)
      then have "concat (taken @ taken') @ capture_audioBuffer (capture_resume ok ?w)
          = concat taken @ capture_audioBuffer ?w"
        by simp
      also have "\<dots> = capture_stream (es @ [e])"
        by (simp only: c) (simp add: capture_stream_def resume)
      finally show ?thesis .
    qed
    ultimately show ?thesis
      unfolding r using d' resume by (intro exI [of _ "taken @ taken'"]) simp
  qed
qed

lemma length_concat_chunks:
  "\<forall>c \<in> set taken. length c = n \<Longrightarrow> length (concat taken) = n * length taken"
  by (induction taken) simp_all

lemma capture_settled:
  assumes "\<forall>e \<in> set es. is_capture_event e" "capture_audioBuffer w = []" "capture_awaiting w = 0"
    and "capture_awaiting (run es w) = 0"
  shows "length (forwarded (trace (run es w)))
           = length (forwarded (trace w)) + length (capture_stream es) div 9600"
    and "length (capture_audioBuffer (run es w)) = length (capture_stream es) mod 9600"
proof -
  from capture_run_slices [OF assms(1,2,3)] obtain taken where
    f: "forwarded (trace (run es w)) = forwarded (trace w) @ map left_samples taken"
    and l: "\<forall>c \<in> set taken. length c = CHUNK_SIZE"
    and c: "concat taken @ capture_audioBuffer (run es w) = capture_stream es"
    and d: "drained (run es w)"
    by blast
  have total: "length (capture_stream es) = 9600 * length taken + length (capture_audioBuffer (run es w))"
    using length_concat_chunks [OF l] by (simp add: c [symmetric] CHUNK_SIZE_eq)
  from d assms(4) have small: "length (capture_audioBuffer (run es w)) < 9600"
    by (simp add: drained_def CHUNK_SIZE_eq)
  from total small show "length (forwarded (trace (run es w)))
      = length (forwarded (trace w)) + length (capture_stream es) div 9600"
    by (simp add: f)
  from total small show "length (capture_audioBuffer (run es w)) = length (capture_stream es) mod 9600"
    by simp
qed

text \<open>
  The sends that have not settled, plus the chunks that are still in the buffer. Every
  resumption of a suspended invocation lowers the sum, so that the suspended invocations drain.
\<close>

definition outstanding :: "world \<Rightarrow> nat" where
  "outstanding w = capture_awaiting w + length (capture_audioBuffer w) div CHUNK_SIZE"

lemma outstanding_capture_loop: "outstanding (capture_loop w) \<le> outstanding w"
proof -
  from capture_loop_slices [of w] obtain taken where s: "sliced w (capture_loop w) taken"
    and a: "capture_awaiting (capture_loop w) = capture_awaiting w
              \<and> length (capture_audioBuffer (capture_loop w)) < CHUNK_SIZE
            \<or> capture_awaiting (capture_loop w) = Suc (capture_awaiting w) \<and> taken \<noteq> []"
    by blast
  from s have l: "\<forall>c \<in> set taken. length c = CHUNK_SIZE"
    and c: "concat taken @ capture_audioBuffer (capture_loop w) = capture_audioBuffer w"
    by (simp_all add: sliced_def)
  have "length (capture_audioBuffer w)
      = length (capture_audioBuffer (capture_loop w)) + length taken * 9600"
    using length_concat_chunks [OF l] by (simp add: c [symmetric] CHUNK_SIZE_eq)
  then have d: "length (capture_audioBuffer w) div 9600
      = length (capture_audioBuffer (capture_loop w)) div 9600 + length taken"
    by simp
  from a show ?thesis
  proof
    assume "capture_awaiting (capture_loop w) = capture_awaiting w
              \<and> length (capture_audioBuffer (capture_loop w)) < CHUNK_SIZE"
    then show ?thesis
      by (simp add: outstanding_def CHUNK_SIZE_eq)
  next
    assume "capture_awaiting (capture_loop w) = Suc (capture_awaiting w) \<and> taken \<noteq> []"
    then have "capture_awaiting (capture_loop w) = Suc (capture_awaiting w)" "Suc 0 \<le> length taken"
      by (simp_all add: Suc_le_eq)
    with d show ?thesis
      by (simp add: outstanding_def CHUNK_SIZE_eq)
  qed
qed

lemma outstanding_capture_resume:
  assumes "0 < capture_awaiting w"
  shows "outstanding (capture_resume ok w) < outstanding w"
proof -
  let ?w1 = "w\<lparr>capture_awaiting := capture_awaiting w - 1\<rparr>"
  let ?w2 = "if ok then ?w1 else emit [ConsoleError ''Error sending system audio:''] ?w1"
  have r: "capture_resume ok w = capture_loop ?w2"
    using assms by (simp add: capture_resume_def Let_def)
  have "outstanding ?w2 < outstanding w"
    using assms by (simp add: outstanding_def emit_def)
  with outstanding_capture_loop [of ?w2] show ?thesis
    unfolding r by simp
qed

lemma resumes_idle:
  "capture_awaiting w = 0 \<Longrightarrow> run (map CaptureResume oks) w = w"
  by (induction oks) (simp_all add: capture_resume_def)

lemma resumes_drain:
  "outstanding w \<le> length oks \<Longrightarrow> capture_awaiting (run (map CaptureResume oks) w) = 0"
proof (induction oks arbitrary: w)
  case Nil
  then show ?case by (simp add: outstanding_def)
next
  case (Cons ok oks)
  show ?case
  proof (cases "capture_awaiting w = 0")
    case True
    then show ?thesis by (simp only: resumes_idle)
  next
    case False
    then have "outstanding (capture_resume ok w) < outstanding w"
      by (intro outstanding_capture_resume) simp
    with Cons.prems have "outstanding (capture_resume ok w) \<le> length oks"
      by simp
    from Cons.IH [OF this] show ?thesis by simp
  qed
qed

lemma capture_stream_resumes: "capture_stream (es @ map CaptureResume oks) = capture_stream es"
  by (induction oks) (simp_all add: capture_stream_def)

text \<open>
  Claim C6, as amended. Let the capture closure start with an empty buffer and no suspended
  handler, and let any sequence of data events and handler resumptions follow. At every moment
  the bytes written so far are the chunks taken so far, in order, followed by the retained
  buffer; every chunk taken is exactly 9600 bytes, that is 2400 whole stereo frames of four
  bytes, and is forwarded downmixed. Whenever no handler invocation is suspended at its
  \<open>await\<close>, the number of chunks forwarded is the total number of bytes divided by 9600,
  rounded down, and the retained buffer holds the remainder, at most 9599 bytes. The suspended
  invocations drain: once as many sends have settled as there are sends pending plus whole
  chunks in the buffer, no invocation is suspended, and the same count and remainder hold.
\<close>

theorem capture_chunking:
  assumes "\<forall>e \<in> set es. is_capture_event e"
    and "capture_audioBuffer w = []" and "capture_awaiting w = 0"
  shows "(\<exists>taken. forwarded (trace (run es w)) = forwarded (trace w) @ map left_samples taken
       \<and> (\<forall>c \<in> set taken. length c = CHUNK_SIZE \<and> length c = 4 * 2400)
       \<and> concat taken @ capture_audioBuffer (run es w) = capture_stream es)
     \<and> (capture_awaiting (run es w) = 0 \<longrightarrow>
          length (forwarded (trace (run es w)))
              = length (forwarded (trace w)) + length (capture_stream es) div 9600
          \<and> length (capture_audioBuffer (run es w)) = length (capture_stream es) mod 9600
          \<and> length (capture_audioBuffer (run es w)) \<le> 9599)
     \<and> (outstanding (run es w) \<le> length oks \<longrightarrow>
          capture_awaiting (run (es @ map CaptureResume oks) w) = 0
          \<and> length (forwarded (trace (run (es @ map CaptureResume oks) w)))
              = length (forwarded (trace w)) + length (capture_stream es) div 9600
          \<and> length (capture_audioBuffer (run (es @ map CaptureResume oks) w))
              = length (capture_stream es) mod 9600
          \<and> length (capture_audioBuffer (run (es @ map CaptureResume oks) w)) \<le> 9599)"
proof -
  from capture_run_slices [OF assms] obtain taken where
    f: "forwarded (trace (run es w)) = forwarded (trace w) @ map left_samples taken"
    and l: "\<forall>c \<in> set taken. length c = CHUNK_SIZE"
    and c: "concat taken @ capture_audioBuffer (run es w) = capture_stream es"
    by blast
  have l': "\<forall>c \<in> set taken. length c = CHUNK_SIZE \<and> length c = 4 * 2400"
    using l by (simp add: CHUNK_SIZE_eq)
  have p: "\<exists>taken. forwarded (trace (run es w)) = forwarded (trace w) @ map left_samples taken
       \<and> (\<forall>c \<in> set taken. length c = CHUNK_SIZE \<and> length c = 4 * 2400)
       \<and> concat taken @ capture_audioBuffer (run es w) = capture_stream es"
    by (rule exI [of _ taken]) (intro conjI f l' c)
  have q: "capture_awaiting (run es w) = 0 \<longrightarrow>
      length (forwarded (trace (run es w)))
          = length (forwarded (trace w)) + length (capture_stream es) div 9600
      \<and> length (capture_audioBuffer (run es w)) = length (capture_stream es) mod 9600
      \<and> length (capture_audioBuffer (run es w)) \<le> 9599"
  proof
    assume a: "capture_awaiting (run es w) = 0"
    have "length (capture_stream es) mod 9600 \<le> 9599"
      by (simp add: less_Suc_eq_le [symmetric] del: less_Suc_eq_le)
    with capture_settled [OF assms a]
    show "length (forwarded (trace (run es w)))
          = length (forwarded (trace w)) + length (capture_stream es) div 9600
      \<and> length (capture_audioBuffer (run es w)) = length (capture_stream es) mod 9600
      \<and> length (capture_audioBuffer (run es w)) \<le> 9599"
      by simp
  qed
  let ?es = "es @ map CaptureResume oks"
  have r: "outstanding (run es w) \<le> length oks \<longrightarrow>
      capture_awaiting (run ?es w) = 0
      \<and> length (forwarded (trace (run ?es w)))
          = length (forwarded (trace w)) + length (capture_stream es) div 9600
      \<and> length (capture_audioBuffer (run ?es w)) = length (capture_stream es) mod 9600
      \<and> length (capture_audioBuffer (run ?es w)) \<le> 9599"
  proof
    assume "outstanding (run es w) \<le> length oks"
    then have a: "capture_awaiting (run ?es w) = 0"
      by (simp add: run_append resumes_drain)
    have e: "\<forall>e \<in> set ?es. is_capture_event e"
      using assms(1) by auto
    have "length (capture_stream es) mod 9600 \<le> 9599"
      by (simp add: less_Suc_eq_le [symmetric] del: less_Suc_eq_le)
    with capture_settled [OF e assms(2,3) a] a
    show "capture_awaiting (run ?es w) = 0
      \<and> length (forwarded (trace (run ?es w)))
          = length (forwarded (trace w)) + length (capture_stream es) div 9600
      \<and> length (capture_audioBuffer (run ?es w)) = length (capture_stream es) mod 9600
      \<and> length (capture_audioBuffer (run ?es w)) \<le> 9599"
      by (simp add: capture_stream_resumes)
  qed
  show ?thesis
    by (intro conjI p q r)
qed


definition capturing :: "string \<Rightarrow> session \<Rightarrow> world" where
  "capturing p s = snd (startMacOSAudioCapture True [] True [] None (started p s))"

lemma capture_one_chunk_sent:
  assumes "sttSession (their w) = Some s" "has_sendRealtimeInput s"
    and "CHUNK_SIZE \<le> length (capture_audioBuffer w)"
  shows "capture_loop w
     = (emit [SystemAudioData (left_samples (take CHUNK_SIZE (capture_audioBuffer w))),
              SendRealtimeInput Them
                (capture_payload w (left_samples (take CHUNK_SIZE (capture_audioBuffer w))))] w)
       \<lparr>capture_audioBuffer := drop CHUNK_SIZE (capture_audioBuffer w),
        capture_awaiting := Suc (capture_awaiting w)\<rparr>"
proof -
  have mono: "convertStereoToMono (take CHUNK_SIZE (capture_audioBuffer w))
      = Inr (left_samples (take CHUNK_SIZE (capture_audioBuffer w)))"
    using assms(3) by (simp add: convertStereoToMono_def CHUNK_SIZE_eq)
  show ?thesis
    using assms mono
    by (subst capture_loop.simps) (simp add: Let_def emit_def capture_payload_def)
qed

lemma capture_first_read:
  assumes "sttSession (their w) = Some s" "has_sendRealtimeInput s"
    and "capture_audioBuffer w = []" "9600 \<le> length d"
  shows "length (forwarded (trace (capture_data d w))) = Suc (length (forwarded (trace w)))"
    and "length (capture_audioBuffer (capture_data d w)) = length d - 9600"
    and "capture_awaiting (capture_data d w) = Suc (capture_awaiting w)"
proof -
  let ?w = "w\<lparr>capture_audioBuffer := capture_audioBuffer w @ d\<rparr>"
  have "sttSession (their ?w) = Some s" "CHUNK_SIZE \<le> length (capture_audioBuffer ?w)"
    using assms by (simp_all add: CHUNK_SIZE_eq)
  note c = capture_one_chunk_sent [OF this(1) assms(2) this(2)]
  show "length (forwarded (trace (capture_data d w))) = Suc (length (forwarded (trace w)))"
    and "length (capture_audioBuffer (capture_data d w)) = length d - 9600"
    and "capture_awaiting (capture_data d w) = Suc (capture_awaiting w)"
    unfolding capture_data_def c using assms(3) by (simp_all add: emit_def CHUNK_SIZE_eq)
qed

theorem capture_chunking_witness:
  "capture_awaiting (run ([CaptureData (replicate 19300 7)] @ map CaptureResume [True, False])
       (capturing ''openai'' realtime_session)) = 0
   \<and> length (forwarded (trace (run ([CaptureData (replicate 19300 7)] @ map CaptureResume [True, False])
       (capturing ''openai'' realtime_session)))) = 2
   \<and> length (capture_audioBuffer (run ([CaptureData (replicate 19300 7)] @ map CaptureResume [True, False])
       (capturing ''openai'' realtime_session))) = 100"
proof -
  let ?es = "[CaptureData (replicate 19300 7)]"
  let ?w = "capturing ''openai'' realtime_session"
  have h: "\<forall>e \<in> set ?es. is_capture_event e" "capture_audioBuffer ?w = []" "capture_awaiting ?w = 0"
    by code_simp+
  have s: "sttSession (their ?w) = Some realtime_session" "has_sendRealtimeInput realtime_session"
    by code_simp+
  have n: "9600 \<le> length (replicate 19300 (7 :: byte))"
    by simp
  note f = capture_first_read [OF s h(2) n]
  have o: "outstanding (run ?es ?w) \<le> length [True, False]"
    by (simp add: outstanding_def f h(3) CHUNK_SIZE_eq)
  have v: "length (capture_stream ?es) = 19300" "forwarded (trace ?w) = []"
    by (simp add: capture_stream_def, code_simp)
  from capture_chunking [OF h, of "[True, False]"] o show ?thesis
    by (simp only: v) simp
qed

text \<open>
  Claim C6 as it was worded fails while an invocation of the data handler is suspended. With
  a streaming provider the handler awaits \<open>sendRealtimeInput\<close> inside its loop: a single read
  of 19200 bytes, two whole chunks, forwards one chunk and suspends, and until the send
  settles the retained buffer holds the other 9600 bytes.
\<close>

theorem capture_suspended_holds_chunk:
  "length (forwarded (trace (run [CaptureData (replicate 19200 7)] (capturing ''openai'' realtime_session)))) = 1
   \<and> length (capture_audioBuffer (run [CaptureData (replicate 19200 7)]
        (capturing ''openai'' realtime_session))) = 9600
   \<and> capture_awaiting (run [CaptureData (replicate 19200 7)] (capturing ''openai'' realtime_session)) = 1"
proof -
  let ?w = "capturing ''openai'' realtime_session"
  have h: "capture_audioBuffer ?w = []" "capture_awaiting ?w = 0" "forwarded (trace ?w) = []"
    by code_simp+
  have s: "sttSession (their ?w) = Some realtime_session" "has_sendRealtimeInput realtime_session"
    by code_simp+
  have n: "9600 \<le> length (replicate 19200 (7 :: byte))"
    by simp
  note f = capture_first_read [OF s h(1) n]
  show ?thesis
    by (simp add: f h)
qed

lemma left_samples_replicate: "left_samples (replicate (4 * k) x) = replicate (2 * k) x"
proof (induction k)
  case 0
  show ?case by simp
next
  case (Suc k)
  have "replicate (4 * Suc k) x = x # x # x # x # replicate (4 * k) x"
    by (simp add: numeral_eq_Suc)
  with Suc show ?case by simp
qed

lemma capture_one_chunk_unsent:
  assumes "capture_audioBuffer w = []" "sttSession (their w) = Some s"
    and "\<not> has_sendRealtimeInput s" "length d = CHUNK_SIZE"
  shows "capture_data d w
     = emit [ConsoleError ''Error sending system audio:'']
         (emit [SystemAudioData (left_samples d)] (w\<lparr>capture_audioBuffer := []\<rparr>))"
proof -
  let ?w0 = "w\<lparr>capture_audioBuffer := capture_audioBuffer w @ d\<rparr>"
  let ?w3 = "emit [ConsoleError ''Error sending system audio:'']
         (emit [SystemAudioData (left_samples d)] (w\<lparr>capture_audioBuffer := []\<rparr>))"
  have mono: "convertStereoToMono d = Inr (left_samples d)"
    using assms(4) by (simp add: convertStereoToMono_def CHUNK_SIZE_eq)
  have 1: "capture_loop ?w0 = capture_loop ?w3"
    using assms mono by (subst capture_loop.simps) (simp add: Let_def emit_def)
  have 2: "capture_loop ?w3 = ?w3"
    by (subst capture_loop.simps) (simp add: CHUNK_SIZE_eq)
  show ?thesis
    by (simp only: capture_data_def 1 2)
qed

text \<open>
  Claim C4 fails on the code for the batch provider. The capture handler does not go through
  \<open>sendSystemAudioContent\<close>: it calls \<open>sendRealtimeInput\<close> on the session itself, a method the
  gaia session does not have. With the gaia provider a complete chunk is forwarded for
  metering, the call raises and is logged, and nothing reaches the audio buffer: no window
  timer is armed and no submission follows. The same mono chunk handed to
  \<open>sendSystemAudioContent\<close> is buffered and arms the window timer.
\<close>

theorem capture_bypasses_batcher:
  "trace (run [CaptureData (replicate 9600 7), Elapse 5000] (capturing ''gaia'' gaia_session))
     = [SystemAudioData (replicate 4800 7), ConsoleError ''Error sending system audio:'']
   \<and> audioBuffer (their (run [CaptureData (replicate 9600 7)] (capturing ''gaia'' gaia_session))) = []
   \<and> timers (run [CaptureData (replicate 9600 7)] (capturing ''gaia'' gaia_session)) = []
   \<and> audioBuffer (their (run [Audio Them None (Base64Data (replicate 4800 7)) []]
        (capturing ''gaia'' gaia_session))) = [replicate 4800 7]
   \<and> timers (run [Audio Them None (Base64Data (replicate 4800 7)) []] (capturing ''gaia'' gaia_session))
       = [Timer 1 5000 (SendBufferedAudio Them)]"
proof -
  let ?w = "capturing ''gaia'' gaia_session"
  have w: "capture_audioBuffer ?w = []" "sttSession (their ?w) = Some gaia_session"
    "\<not> has_sendRealtimeInput gaia_session" "trace ?w = []" "timers ?w = []"
    "audioBuffer (their ?w) = []" "audioTimer (their ?w) = None" "nextTimer ?w = 1" "clock ?w = 0"
    "selected_model None ?w = Some \<lparr>provider = ''gaia'', apiKey = ''key''\<rparr>"
    by code_simp+
  have l: "length (replicate 9600 (7 :: byte)) = CHUNK_SIZE"
    by (simp add: CHUNK_SIZE_eq)
  have m: "left_samples (replicate 9600 (7 :: byte)) = replicate 4800 7"
    using left_samples_replicate [of 2400 "7 :: byte"] by simp
  note c = capture_one_chunk_unsent [OF w(1,2,3) l, unfolded m]
  have t: "timers (capture_data (replicate 9600 7) ?w) = []"
    "audioBuffer (their (capture_data (replicate 9600 7) ?w)) = []"
    "trace (capture_data (replicate 9600 7) ?w)
       = [SystemAudioData (replicate 4800 7), ConsoleError ''Error sending system audio:'']"
    by (simp_all add: c w emit_def)
  have a: "advance (clock (capture_data (replicate 9600 7) ?w) + 5000) (capture_data (replicate 9600 7) ?w)
      = (capture_data (replicate 9600 7) ?w)\<lparr>clock :=
          max (clock (capture_data (replicate 9600 7) ?w)) (clock (capture_data (replicate 9600 7) ?w) + 5000)\<rparr>"
    by (rule advance_none) (simp add: t)
  have g: "provider \<lparr>provider = ''gaia'', apiKey = ''key''\<rparr> = ''gaia''"
    by simp
  have chan_them: "sttSession (chan Them ?w) = Some gaia_session" "audioTimer (chan Them ?w) = None"
    using w by simp_all
  note sa = sendAudio_gaia [OF chan_them(1) w(10) g, of "Base64Data (replicate 4800 7)" "[]"]
  show ?thesis
    by (simp add: a t sa chan_them w AUDIO_SEND_INTERVAL_def)
qed

end
